theory Spec2Isabelle
  imports Complex_Main "HOL-Library.Char_ord" "HOL-Library.List_Lexorder" "HOL-Library.Multiset"
begin

section \<open>Strings\<close>

text \<open>
  Python strings are modelled as HOL strings: lists of characters, a character being a
  code point below 256 and compared by its code point.  The functions of the program
  inspect characters only by equality with a few ASCII characters and by \<open>str.lower\<close>.
\<close>

text \<open>
  \<open>str.lower\<close> on one character: the 26 ASCII capitals and the 30 capitals of Latin-1
  (\<open>U+00C0\<close> to \<open>U+00DE\<close> without the multiplication sign \<open>U+00D7\<close>) go to their small
  letters, 32 code points up; every other character stays.
\<close>

definition lower_char :: "char \<Rightarrow> char" where
  "lower_char c =
     (case map_of
        (zip (''ABCDEFGHIJKLMNOPQRSTUVWXYZ'' @
            [CHR 0xC0, CHR 0xC1, CHR 0xC2, CHR 0xC3, CHR 0xC4, CHR 0xC5, CHR 0xC6, CHR 0xC7,
             CHR 0xC8, CHR 0xC9, CHR 0xCA, CHR 0xCB, CHR 0xCC, CHR 0xCD, CHR 0xCE, CHR 0xCF,
             CHR 0xD0, CHR 0xD1, CHR 0xD2, CHR 0xD3, CHR 0xD4, CHR 0xD5, CHR 0xD6, CHR 0xD8,
             CHR 0xD9, CHR 0xDA, CHR 0xDB, CHR 0xDC, CHR 0xDD, CHR 0xDE])
           (''abcdefghijklmnopqrstuvwxyz'' @
            [CHR 0xE0, CHR 0xE1, CHR 0xE2, CHR 0xE3, CHR 0xE4, CHR 0xE5, CHR 0xE6, CHR 0xE7,
             CHR 0xE8, CHR 0xE9, CHR 0xEA, CHR 0xEB, CHR 0xEC, CHR 0xED, CHR 0xEE, CHR 0xEF,
             CHR 0xF0, CHR 0xF1, CHR 0xF2, CHR 0xF3, CHR 0xF4, CHR 0xF5, CHR 0xF6, CHR 0xF8,
             CHR 0xF9, CHR 0xFA, CHR 0xFB, CHR 0xFC, CHR 0xFD, CHR 0xFE])) c of
        None \<Rightarrow> c
      | Some d \<Rightarrow> d)"

definition lower :: "string \<Rightarrow> string" where
  "lower s = map lower_char s"

definition endswith :: "string \<Rightarrow> string \<Rightarrow> bool" where
  "endswith s t = (length t \<le> length s \<and> drop (length s - length t) s = t)"

definition strip :: "string \<Rightarrow> string \<Rightarrow> string" where
  "strip chars s =
     rev (dropWhile (\<lambda>c. c \<in> set chars) (rev (dropWhile (\<lambda>c. c \<in> set chars) s)))"

section \<open>config/constants.py\<close>

definition PDF_EXTENSION :: string where
  "PDF_EXTENSION = ''.pdf''"

definition MAX_PREVIEW_FILES :: int where
  "MAX_PREVIEW_FILES = 10"

section \<open>utils/file\_utils.py: names\<close>

text \<open>The character class \<open>[<>:"/\|?*]\<close> of the first substitution.\<close>

definition illegal_chars :: "char list" where
  "illegal_chars =
     [CHR ''<'', CHR ''>'', CHR '':'', CHR 0x22, CHR ''/'', CHR 0x5C, CHR ''|'', CHR ''?'',
      CHR ''*'']"

definition replace_illegal :: "string \<Rightarrow> string" where
  "replace_illegal s = map (\<lambda>c. if c \<in> set illegal_chars then CHR ''_'' else c) s"

text \<open>
  \<open>re.sub(r"_+", "_", s)\<close>: scanning from the left, every maximal run of underscores is
  replaced by one underscore; every other character is copied.
\<close>

function collapse_underscores :: "string \<Rightarrow> string" where
  "collapse_underscores [] = []"
| "collapse_underscores (c # cs) =
     (if c = CHR ''_''
      then CHR ''_'' # collapse_underscores (dropWhile (\<lambda>d. d = CHR ''_'') cs)
      else c # collapse_underscores cs)"
  by pat_completeness auto
termination
  by (relation "measure length") (auto simp: less_Suc_eq_le length_dropWhile_le)

definition sanitize_filename :: "string \<Rightarrow> string" where
  "sanitize_filename filename =
     strip ''_ '' (collapse_underscores (replace_illegal filename))"

definition ensure_pdf_extension :: "string \<Rightarrow> string" where
  "ensure_pdf_extension name =
     (if \<not> endswith (lower name) PDF_EXTENSION then name @ PDF_EXTENSION else name)"

section \<open>Paths\<close>

text \<open>
  A \<open>pathlib.Path\<close> is the list of its components; \<open>Path.name\<close> is the last one
  (the empty string for a path without components).  \<open>stem\<close> and \<open>suffix\<close> follow
  pathlib: with \<open>i = name.rfind('.')\<close>, the suffix is \<open>name[i:]\<close> when
  \<open>0 < i < len(name) - 1\<close> and empty otherwise, and the stem is the rest.
\<close>

type_synonym path = "string list"

definition path_name :: "path \<Rightarrow> string" where
  "path_name p = (if p = [] then [] else last p)"

definition rfind_dot :: "string \<Rightarrow> nat option" where
  "rfind_dot n =
     (if CHR ''.'' \<in> set n
      then Some (length n - 1 - length (takeWhile (\<lambda>c. c \<noteq> CHR ''.'') (rev n)))
      else None)"

definition stem :: "string \<Rightarrow> string" where
  "stem n =
     (case rfind_dot n of
        None \<Rightarrow> n
      | Some i \<Rightarrow> if 0 < i \<and> i < length n - 1 then take i n else n)"

definition suffix_of :: "string \<Rightarrow> string" where
  "suffix_of n =
     (case rfind_dot n of
        None \<Rightarrow> []
      | Some i \<Rightarrow> if 0 < i \<and> i < length n - 1 then drop i n else [])"

section \<open>Exceptions\<close>

datatype exn =
    FileNotFoundError
  | NotADirectoryError
  | RuntimeError
  | KeyboardInterrupt
  | ValueError
  | OSError

datatype 'a result = Returned 'a | Raised exn

text \<open>\<open>Path.with_name\<close> raises \<open>ValueError\<close> on a path whose name is empty.\<close>

definition with_name :: "path \<Rightarrow> string \<Rightarrow> path result" where
  "with_name p n = (if path_name p = [] then Raised ValueError else Returned (butlast p @ [n]))"

section \<open>The clock\<close>

record datetime =
  year :: nat
  month :: nat
  day :: nat
  hour :: nat
  minute :: nat
  second :: nat

text \<open>The values \<open>datetime.now()\<close> can return, from year 1000 on.\<close>

definition valid_datetime :: "datetime \<Rightarrow> bool" where
  "valid_datetime t \<longleftrightarrow>
     1000 \<le> year t \<and> year t \<le> 9999 \<and> 1 \<le> month t \<and> month t \<le> 12 \<and>
     1 \<le> day t \<and> day t \<le> 31 \<and> hour t \<le> 23 \<and> minute t \<le> 59 \<and> second t \<le> 59"

definition digit_char :: "nat \<Rightarrow> char" where
  "digit_char d = ''0123456789'' ! (d mod 10)"

fun decimal :: "nat \<Rightarrow> string" where
  "decimal n = (if n < 10 then [digit_char n] else decimal (n div 10) @ [digit_char n])"

declare decimal.simps [simp del]

definition zero_pad :: "nat \<Rightarrow> nat \<Rightarrow> string" where
  "zero_pad w n = replicate (w - length (decimal n)) CHR ''0'' @ decimal n"

text \<open>\<open>strftime("%Y%m%d_%H%M%S")\<close>; the fields after the year are padded to two digits.\<close>

definition strftime :: "datetime \<Rightarrow> string" where
  "strftime t =
     decimal (year t) @ zero_pad 2 (month t) @ zero_pad 2 (day t) @ ''_'' @
     zero_pad 2 (hour t) @ zero_pad 2 (minute t) @ zero_pad 2 (second t)"

definition is_digit :: "char \<Rightarrow> bool" where
  "is_digit c \<longleftrightarrow> c \<in> set ''0123456789''"

section \<open>utils/file\_utils.py: collisions and preview\<close>

text \<open>
  \<open>ensure_unique_output\<close> reads the file system (\<open>path.exists()\<close>) and the clock; both
  are arguments here.
\<close>

definition ensure_unique_output :: "(path \<Rightarrow> bool) \<Rightarrow> datetime \<Rightarrow> path \<Rightarrow> path result" where
  "ensure_unique_output exists now p =
     (if \<not> exists p then Returned p
      else with_name p (stem (path_name p) @ ''_'' @ strftime now @ PDF_EXTENSION))"

text \<open>The loop of \<open>limit_preview\<close>, with the index of \<open>enumerate\<close> as an argument.\<close>

fun limit_preview_loop :: "int \<Rightarrow> int \<Rightarrow> path list \<Rightarrow> string list \<Rightarrow> string list" where
  "limit_preview_loop limit idx [] preview = preview"
| "limit_preview_loop limit idx (pdf_file # files) preview =
     (if idx \<ge> limit then preview
      else limit_preview_loop limit (idx + 1) files (preview @ [path_name pdf_file]))"

definition limit_preview :: "path list \<Rightarrow> int \<Rightarrow> string list" where
  "limit_preview files limit = limit_preview_loop limit 0 files []"

section \<open>config/settings.py and the world outside the program\<close>

record MergeSettings =
  folder_path :: path
  recursive :: bool
  output_name :: "string option"
  destination :: "path option"

text \<open>
  What a path names: a regular file, a directory with its entries in the order in which
  the directory is listed, or something else (a socket, a dangling link).
\<close>

datatype node = File | Special | Dir "(string \<times> node) list"

text \<open>
  The PDF library is not part of the program.  What the body of the \<open>try\<close> block does
  with one input file is one of two things: every page of the file is appended to the
  writer, or an exception with some message is raised after some pages (none, when
  \<open>open\<close> or \<open>PdfReader\<close> raises) were appended.
\<close>

type_synonym page = nat

datatype read_result = AllPages "page list" | RaisesAfter "page list" string

text \<open>
  Everything an invocation reads from outside: what \<open>folder_path\<close> names, what reading
  each input does, whether a destination given by the user can be made, the names that
  exist there, the clock, the optional libraries, whether the output can be written and
  how many bytes the written document has.
\<close>

record env =
  source_node :: "node option"
  read_pdf :: "path \<Rightarrow> read_result"
  mkdir_ok :: bool
  dest_names :: "string list"
  clock :: datetime
  pdf_lib_ok :: bool
  has_tqdm :: bool
  write_ok :: bool
  written_size :: "page list \<Rightarrow> nat"

section \<open>core/scanner.py\<close>

text \<open>
  \<open>Path.glob\<close> with the pattern \<open>*.pdf\<close> yields the entries of the directory whose name
  ends with \<open>.pdf\<close> (names are compared as they are, as on POSIX); with \<open>**/*.pdf\<close> it
  does so for the directory and then for every directory below it.  An entry is kept
  with the node it names, which is what \<open>path.is_file()\<close> looks at.
\<close>

definition glob_match :: "string \<Rightarrow> bool" where
  "glob_match n = endswith n ''.pdf''"

definition glob_children :: "path \<Rightarrow> (string \<times> node) list \<Rightarrow> (path \<times> node) list" where
  "glob_children dir es =
     map (\<lambda>e. (dir @ [fst e], snd e)) (filter (\<lambda>e. glob_match (fst e)) es)"

fun glob_rec :: "path \<Rightarrow> node \<Rightarrow> (path \<times> node) list"
  and glob_rec_list :: "path \<Rightarrow> (string \<times> node) list \<Rightarrow> (path \<times> node) list" where
  "glob_rec dir (Dir es) = glob_children dir es @ glob_rec_list dir es"
| "glob_rec dir File = []"
| "glob_rec dir Special = []"
| "glob_rec_list dir [] = []"
| "glob_rec_list dir (e # es) = glob_rec (dir @ [fst e]) (snd e) @ glob_rec_list dir es"

definition is_file :: "path \<times> node \<Rightarrow> bool" where
  "is_file e = (snd e = File)"

definition glob :: "env \<Rightarrow> MergeSettings \<Rightarrow> (path \<times> node) list" where
  "glob w settings =
     (case source_node w of
        Some (Dir es) \<Rightarrow>
          if recursive settings then glob_rec (folder_path settings) (Dir es)
          else glob_children (folder_path settings) es
      | _ \<Rightarrow> [])"

definition scan :: "env \<Rightarrow> MergeSettings \<Rightarrow> path list" where
  "scan w settings =
     (let pdf_files = sort_key (\<lambda>e. lower (path_name (fst e))) (glob w settings)
      in map fst (filter is_file pdf_files))"

section \<open>utils/console.py\<close>

text \<open>The lines the program prints, without their colours and wording.\<close>

datatype message =
    SourceFolder path
  | RecursiveSearch bool
  | NoPdfFilesFound
  | TryRecursive
  | Found nat
  | OutputExists string
  | FilesToMerge
  | FileItem nat string
  | MoreFiles int
  | UsingLibrary
  | InstallTqdm
  | ReadyToMerge nat
  | OutputFile path
  | Processing string nat nat
  | AddedPages nat
  | FailedToProcess string string
  | SavingTo path
  | FailedToSave
  | ErrorMessage exn
  | Cancelled
  | Unexpected exn
  | Created string
  | TotalPages nat
  | FileSize rat
  | Accomplished path
  | MissionFailed

definition print_files :: "string list \<Rightarrow> int \<Rightarrow> int \<Rightarrow> message list" where
  "print_files items preview_limit total_files =
     FilesToMerge # map (\<lambda>(idx, v). FileItem idx v) (zip [1 ..< Suc (length items)] items) @
     (if total_files > preview_limit then [MoreFiles (total_files - preview_limit)] else [])"

section \<open>core/merger.py\<close>

text \<open>
  \<open>file_size_mb\<close> is the size in bytes over \<open>1024 * 1024\<close>; the rounding of the
  floating-point division is left out.
\<close>

record MergeOutcome =
  output_path :: path
  total_pages :: nat
  file_size_mb :: rat

text \<open>What a call leaves behind: the lines printed and the document written, if any.\<close>

record effects =
  console :: "message list"
  written :: "(path \<times> page list) option"

text \<open>The variables of the loop of \<open>merge\<close>: the writer, the count and the lines printed.\<close>

record merge_state =
  pdf_writer :: "page list"
  running_total :: nat
  printed :: "message list"

definition process_file :: "env \<Rightarrow> nat \<Rightarrow> nat \<Rightarrow> path \<Rightarrow> merge_state \<Rightarrow> merge_state" where
  "process_file w n_files index pdf_path st =
     (let st1 = (if has_tqdm w then st
                 else st\<lparr>printed := printed st @ [Processing (path_name pdf_path) index n_files]\<rparr>)
      in case read_pdf w pdf_path of
           AllPages ps \<Rightarrow>
             st1\<lparr>pdf_writer := pdf_writer st1 @ ps,
                 running_total := running_total st1 + length ps,
                 printed := printed st1 @ (if has_tqdm w then [] else [AddedPages (length ps)])\<rparr>
         | RaisesAfter ps msg \<Rightarrow>
             st1\<lparr>pdf_writer := pdf_writer st1 @ ps,
                 printed := printed st1 @ [FailedToProcess (path_name pdf_path) msg]\<rparr>)"

fun merge_loop :: "env \<Rightarrow> nat \<Rightarrow> nat \<Rightarrow> path list \<Rightarrow> merge_state \<Rightarrow> merge_state" where
  "merge_loop w n_files index [] st = st"
| "merge_loop w n_files index (pdf_path # files) st =
     merge_loop w n_files (Suc index) files (process_file w n_files index pdf_path st)"

definition merge :: "env \<Rightarrow> path list \<Rightarrow> path \<Rightarrow> effects \<times> MergeOutcome result" where
  "merge w pdf_files out_path =
     (if \<not> pdf_lib_ok w then (\<lparr>console = [], written = None\<rparr>, Raised RuntimeError)
      else
        let st = merge_loop w (length pdf_files) 1 pdf_files
                   \<lparr>pdf_writer = [], running_total = 0, printed = []\<rparr>;
            msgs = printed st @ [SavingTo out_path]
        in if \<not> write_ok w then (\<lparr>console = msgs, written = None\<rparr>, Raised OSError)
           else (\<lparr>console = msgs, written = Some (out_path, pdf_writer st)\<rparr>,
                 Returned \<lparr>output_path = out_path,
                           total_pages = running_total st,
                           file_size_mb =
                             of_nat (written_size w (pdf_writer st)) / (1024 * 1024)\<rparr>))"

section \<open>core/orchestrator.py\<close>

text \<open>
  \<open>target.mkdir(parents=True, exist_ok=True)\<close> does nothing on the source folder, which
  exists; on a destination given by the user it can fail.
\<close>

definition resolve_destination :: "env \<Rightarrow> path option \<Rightarrow> path \<Rightarrow> path result" where
  "resolve_destination w dest fallback =
     (case dest of
        None \<Rightarrow> Returned fallback
      | Some target \<Rightarrow> if mkdir_ok w then Returned target else Raised OSError)"

text \<open>\<open>if settings.output_name\<close> is false for \<open>None\<close> and for the empty string.\<close>

definition resolve_output_name :: "MergeSettings \<Rightarrow> path \<Rightarrow> string" where
  "resolve_output_name settings folder =
     (let raw_name =
            (case output_name settings of
               Some n \<Rightarrow>
                 if n \<noteq> [] then sanitize_filename n else sanitize_filename (path_name folder)
             | None \<Rightarrow> sanitize_filename (path_name folder))
      in ensure_pdf_extension raw_name)"

text \<open>\<open>Path.exists\<close> for a path in the directory the output goes to.\<close>

definition path_exists :: "env \<Rightarrow> MergeSettings \<Rightarrow> path \<Rightarrow> bool" where
  "path_exists w settings p =
     (case destination settings of
        Some target \<Rightarrow> path_name p \<in> set (dest_names w)
      | None \<Rightarrow>
          (case source_node w of
             Some (Dir es) \<Rightarrow> path_name p \<in> set (map fst es)
           | _ \<Rightarrow> False))"

definition execute_merge ::
  "env \<Rightarrow> path list \<Rightarrow> message list \<Rightarrow> path \<Rightarrow> path \<Rightarrow>
   effects \<times> MergeOutcome option result" where
  "execute_merge w pdf_files m2 raw_output_path out_path =
     (let m3 = m2 @ (if out_path \<noteq> raw_output_path
                     then [OutputExists (path_name out_path)] else []);
          preview = limit_preview pdf_files MAX_PREVIEW_FILES;
          m4 = m3 @
               print_files preview MAX_PREVIEW_FILES (int (length pdf_files)) @
               [UsingLibrary] @ (if \<not> has_tqdm w then [InstallTqdm] else []) @
               [ReadyToMerge (length pdf_files), OutputFile out_path];
          r = merge w pdf_files out_path
      in (\<lparr>console = m4 @ console (fst r), written = written (fst r)\<rparr>,
          (case snd r of
             Raised e \<Rightarrow> Raised e
           | Returned outcome \<Rightarrow> Returned (Some outcome))))"

definition execute_found ::
  "env \<Rightarrow> MergeSettings \<Rightarrow> path list \<Rightarrow> message list \<Rightarrow> effects \<times> MergeOutcome option result" where
  "execute_found w settings pdf_files m1 =
     (let folder = folder_path settings;
          m2 = m1 @ [Found (length pdf_files)]
      in case resolve_destination w (destination settings) folder of
           Raised e \<Rightarrow> (\<lparr>console = m2, written = None\<rparr>, Raised e)
         | Returned dest \<Rightarrow>
             (let raw_output_path = dest @ [resolve_output_name settings folder]
              in (case ensure_unique_output (path_exists w settings) (clock w) raw_output_path of
                    Raised e \<Rightarrow> (\<lparr>console = m2, written = None\<rparr>, Raised e)
                  | Returned out_path \<Rightarrow>
                      execute_merge w pdf_files m2 raw_output_path out_path)))"

definition execute :: "env \<Rightarrow> MergeSettings \<Rightarrow> effects \<times> MergeOutcome option result" where
  "execute w settings =
     (case source_node w of
        None \<Rightarrow> (\<lparr>console = [], written = None\<rparr>, Raised FileNotFoundError)
      | Some File \<Rightarrow> (\<lparr>console = [], written = None\<rparr>, Raised NotADirectoryError)
      | Some Special \<Rightarrow> (\<lparr>console = [], written = None\<rparr>, Raised NotADirectoryError)
      | Some (Dir es) \<Rightarrow>
          let m1 = [SourceFolder (folder_path settings), RecursiveSearch (recursive settings)];
              pdf_files = scan w settings
          in if pdf_files = []
             then (\<lparr>console = m1 @ [NoPdfFilesFound] @
                               (if \<not> recursive settings then [TryRecursive] else []),
                    written = None\<rparr>,
                   Returned None)
             else execute_found w settings pdf_files m1)"

section \<open>cli/app.py\<close>

text \<open>
  The \<open>try\<close> statement of \<open>PdfMergerApp.run\<close> around \<open>orchestrator.execute\<close>, and what
  follows it: the lines printed and the value returned, which \<open>sys.exit\<close> makes the exit
  code of the process.
\<close>

fun run_handler :: "MergeOutcome option result \<Rightarrow> message list \<times> int" where
  "run_handler (Raised FileNotFoundError) = ([ErrorMessage FileNotFoundError], 1)"
| "run_handler (Raised NotADirectoryError) = ([ErrorMessage NotADirectoryError], 1)"
| "run_handler (Raised RuntimeError) = ([ErrorMessage RuntimeError], 1)"
| "run_handler (Raised KeyboardInterrupt) = ([Cancelled], 1)"
| "run_handler (Raised e) = ([Unexpected e], 1)"
| "run_handler (Returned None) = ([], 0)"
| "run_handler (Returned (Some outcome)) =
     ([Created (path_name (output_path outcome)), TotalPages (total_pages outcome),
       FileSize (file_size_mb outcome), Accomplished (output_path outcome)], 0)"

text \<open>
  A user interrupt arrives from outside while \<open>execute\<close> runs: \<open>interrupted\<close> says
  whether it does, and then \<open>execute\<close> ends with \<open>KeyboardInterrupt\<close>.
\<close>

definition run :: "env \<Rightarrow> bool \<Rightarrow> MergeSettings \<Rightarrow> int" where
  "run w interrupted settings =
     snd (run_handler (if interrupted then Raised KeyboardInterrupt
                       else snd (execute w settings)))"

section \<open>pdf\_merger.py, the standalone script\<close>

definition get_pdf_files :: "env \<Rightarrow> path \<Rightarrow> bool \<Rightarrow> path list" where
  "get_pdf_files w folder rec =
     (case source_node w of
        Some (Dir es) \<Rightarrow>
          map fst (sort_key (\<lambda>e. lower (path_name (fst e)))
                     (if rec then glob_rec folder (Dir es) else glob_children folder es))
      | _ \<Rightarrow> [])"

text \<open>
  \<open>merge_pdfs\<close> returns whether it succeeded; its loop does to the writer and to the
  count what the loop of \<open>merge\<close> does, and a failure to write is caught.
\<close>

definition merge_pdfs :: "env \<Rightarrow> path list \<Rightarrow> path \<Rightarrow> effects \<times> bool" where
  "merge_pdfs w pdf_files out_path =
     (if pdf_files = [] then (\<lparr>console = [], written = None\<rparr>, False)
      else
        let st = merge_loop w (length pdf_files) 1 pdf_files
                   \<lparr>pdf_writer = [], running_total = 0, printed = []\<rparr>;
            msgs = printed st @ [SavingTo out_path]
        in if \<not> write_ok w
           then (\<lparr>console = msgs @ [FailedToSave], written = None\<rparr>, False)
           else (\<lparr>console = msgs @ [Created (path_name out_path),
                                      TotalPages (running_total st),
                                      FileSize (of_nat (written_size w (pdf_writer st)) /
                                                (1024 * 1024))],
                  written = Some (out_path, pdf_writer st)\<rparr>,
                 True))"

text \<open>How \<open>main\<close> of the script ends: it returns, calls \<open>sys.exit\<close>, or raises.\<close>

datatype main_result = Finished | SysExit int | Uncaught exn

definition script_output_path :: "env \<Rightarrow> MergeSettings \<Rightarrow> path result" where
  "script_output_path w settings =
     (let folder = folder_path settings;
          name0 = (case output_name settings of
                     Some n \<Rightarrow>
                       if n \<noteq> [] then sanitize_filename n
                       else sanitize_filename (path_name folder)
                   | None \<Rightarrow> sanitize_filename (path_name folder));
          name1 = (if \<not> endswith (lower name0) ''.pdf'' then name0 @ ''.pdf'' else name0)
      in case resolve_destination w (destination settings) folder of
           Raised e \<Rightarrow> Raised e
         | Returned dest \<Rightarrow>
             (let p = dest @ [name1]
              in if path_exists w settings p
                 then Returned (butlast p @ [stem (path_name p) @ ''_'' @ strftime (clock w) @ ''.pdf''])
                 else Returned p))"

definition script_main :: "env \<Rightarrow> MergeSettings \<Rightarrow> main_result" where
  "script_main w settings =
     (case source_node w of
        None \<Rightarrow> SysExit 1
      | Some File \<Rightarrow> SysExit 1
      | Some Special \<Rightarrow> SysExit 1
      | Some (Dir es) \<Rightarrow>
          (let pdf_files = get_pdf_files w (folder_path settings) (recursive settings)
           in if pdf_files = [] then SysExit 0
              else (case script_output_path w settings of
                      Raised e \<Rightarrow> Uncaught e
                    | Returned out_path \<Rightarrow>
                        if snd (merge_pdfs w pdf_files out_path) then Finished
                        else SysExit 1)))"

text \<open>
  The handlers under \<open>if __name__ == "__main__"\<close>: \<open>sys.exit\<close> inside \<open>main\<close> passes
  through them, an interrupt exits with 0, any other exception with 1.
\<close>

fun script_handler :: "main_result \<Rightarrow> int" where
  "script_handler Finished = 0"
| "script_handler (SysExit n) = n"
| "script_handler (Uncaught KeyboardInterrupt) = 0"
| "script_handler (Uncaught e) = 1"

text \<open>Without a PDF library the script exits with 1 while it is imported.\<close>

definition script :: "env \<Rightarrow> bool \<Rightarrow> MergeSettings \<Rightarrow> int" where
  "script w interrupted settings =
     (if \<not> pdf_lib_ok w then 1
      else script_handler (if interrupted then Uncaught KeyboardInterrupt
                           else script_main w settings))"

section \<open>Predicates of the specification\<close>

text \<open>Two underscores next to each other somewhere in a string.\<close>

fun adjacent_underscores :: "string \<Rightarrow> bool" where
  "adjacent_underscores (a # b # r) =
     ((a = CHR ''_'' \<and> b = CHR ''_'') \<or> adjacent_underscores (b # r))"
| "adjacent_underscores r = False"

text \<open>The characters that \<open>sanitize_filename\<close> replaces or strips.\<close>

definition removable :: "char \<Rightarrow> bool" where
  "removable c \<longleftrightarrow> c \<in> set illegal_chars \<or> c = CHR ''_'' \<or> c = CHR '' ''"

text \<open>The base name that \<open>_resolve_output_name\<close> sanitizes.\<close>

definition base_name :: "MergeSettings \<Rightarrow> path \<Rightarrow> string" where
  "base_name settings folder =
     (case output_name settings of
        Some n \<Rightarrow> if n \<noteq> [] then n else path_name folder
      | None \<Rightarrow> path_name folder)"

text \<open>The two runs of digits of a timestamp.\<close>

definition date_part :: "datetime \<Rightarrow> string" where
  "date_part t = decimal (year t) @ zero_pad 2 (month t) @ zero_pad 2 (day t)"

definition time_part :: "datetime \<Rightarrow> string" where
  "time_part t = zero_pad 2 (hour t) @ zero_pad 2 (minute t) @ zero_pad 2 (second t)"

text \<open>
  \<open>resolves k rel m\<close>: following the names \<open>rel\<close> from the node \<open>k\<close> leads to the node
  \<open>m\<close>.
\<close>

fun resolves :: "node \<Rightarrow> path \<Rightarrow> node \<Rightarrow> bool" where
  "resolves k [] m = (k = m)"
| "resolves (Dir es) (c # cs) m = (\<exists>e \<in> set es. fst e = c \<and> resolves (snd e) cs m)"
| "resolves File (c # cs) m = False"
| "resolves Special (c # cs) m = False"

text \<open>Every entry below a directory, with its path: the directory's own entries first.\<close>

fun tree_entries :: "path \<Rightarrow> node \<Rightarrow> (path \<times> node) list"
  and tree_entries_list :: "path \<Rightarrow> (string \<times> node) list \<Rightarrow> (path \<times> node) list" where
  "tree_entries dir (Dir es) = map (\<lambda>e. (dir @ [fst e], snd e)) es @ tree_entries_list dir es"
| "tree_entries dir File = []"
| "tree_entries dir Special = []"
| "tree_entries_list dir [] = []"
| "tree_entries_list dir (e # es) =
     tree_entries (dir @ [fst e]) (snd e) @ tree_entries_list dir es"

text \<open>
  The entries a scan is about: those of the source folder itself, and with the
  recursive flag those of every directory below it.
\<close>

definition in_scope :: "env \<Rightarrow> MergeSettings \<Rightarrow> (path \<times> node) list" where
  "in_scope w settings =
     (case source_node w of
        Some (Dir es) \<Rightarrow>
          if recursive settings then tree_entries (folder_path settings) (Dir es)
          else map (\<lambda>e. (folder_path settings @ [fst e], snd e)) es
      | _ \<Rightarrow> [])"

text \<open>A regular file whose name ends with \<open>.pdf\<close>.\<close>

definition pdf_file_entry :: "path \<times> node \<Rightarrow> bool" where
  "pdf_file_entry e \<longleftrightarrow> snd e = File \<and> endswith (path_name (fst e)) PDF_EXTENSION"

text \<open>
  The pages that reading one input leaves in the writer, and the pages it adds to the
  count.
\<close>

fun pages_appended :: "read_result \<Rightarrow> page list" where
  "pages_appended (AllPages ps) = ps"
| "pages_appended (RaisesAfter ps msg) = ps"

fun pages_counted :: "read_result \<Rightarrow> nat" where
  "pages_counted (AllPages ps) = length ps"
| "pages_counted (RaisesAfter ps msg) = 0"

section \<open>Sanitizing a file name\<close>

lemma collapse_underscores_fixed:
  "\<not> adjacent_underscores s \<Longrightarrow> collapse_underscores s = s"
proof (induction s rule: collapse_underscores.induct)
  case 1
  show ?case by simp
next
  case (2 c cs)
  show ?case
  proof (cases cs)
    case Nil
    then show ?thesis by simp
  next
    case (Cons d r)
    with 2 show ?thesis by auto
  qed
qed

lemma adjacent_underscores_Cons:
  "adjacent_underscores (a # ys) \<longleftrightarrow>
   ys \<noteq> [] \<and> ((a = CHR ''_'' \<and> hd ys = CHR ''_'') \<or> adjacent_underscores ys)"
  by (cases ys) simp_all

lemma collapse_underscores_head:
  "s = [] \<or> hd s \<noteq> CHR ''_'' \<Longrightarrow>
   collapse_underscores s = [] \<or> hd (collapse_underscores s) \<noteq> CHR ''_''"
  by (cases s) auto

lemma collapse_underscores_no_run: "\<not> adjacent_underscores (collapse_underscores s)"
proof (induction s rule: collapse_underscores.induct)
  case 1
  show ?case by simp
next
  case (2 c cs)
  show ?case
  proof (cases "c = CHR ''_''")
    case True
    let ?r = "dropWhile (\<lambda>d. d = CHR ''_'') cs"
    have e: "collapse_underscores (c # cs) = CHR ''_'' # collapse_underscores ?r"
      using True by simp
    have ih: "\<not> adjacent_underscores (collapse_underscores ?r)"
      using True by (rule "2.IH"(1))
    have "?r = [] \<or> hd ?r \<noteq> CHR ''_''"
      using hd_dropWhile [of "\<lambda>d. d = CHR ''_''" cs] by blast
    then have "collapse_underscores ?r = [] \<or> hd (collapse_underscores ?r) \<noteq> CHR ''_''"
      by (rule collapse_underscores_head)
    with ih show ?thesis unfolding e adjacent_underscores_Cons by blast
  next
    case False
    have e: "collapse_underscores (c # cs) = c # collapse_underscores cs"
      using False by simp
    have "\<not> adjacent_underscores (collapse_underscores cs)"
      using False by (rule "2.IH"(2))
    with False show ?thesis unfolding e adjacent_underscores_Cons by blast
  qed
qed

lemma collapse_underscores_subset: "set (collapse_underscores s) \<subseteq> set s"
proof (induction s rule: collapse_underscores.induct)
  case 1
  show ?case by simp
next
  case (2 c cs)
  have "set (dropWhile (\<lambda>d. d = CHR ''_'') cs) \<subseteq> set cs"
    by (rule set_dropWhileD [THEN subsetI])
  with 2 show ?case by auto
qed

lemma adjacent_underscores_append:
  "\<not> adjacent_underscores (xs @ ys) \<Longrightarrow>
   \<not> adjacent_underscores xs \<and> \<not> adjacent_underscores ys"
proof (induction xs)
  case Nil
  then show ?case by simp
next
  case (Cons a xs)
  show ?case
  proof (cases "xs @ ys = []")
    case True
    then show ?thesis by simp
  next
    case False
    with Cons.prems have h: "\<not> (a = CHR ''_'' \<and> hd (xs @ ys) = CHR ''_'')"
      and n: "\<not> adjacent_underscores (xs @ ys)"
      unfolding append_Cons adjacent_underscores_Cons by blast+
    from n have ih: "\<not> adjacent_underscores xs \<and> \<not> adjacent_underscores ys"
      by (rule Cons.IH)
    have "\<not> adjacent_underscores (a # xs)"
    proof (cases "xs = []")
      case True
      then show ?thesis by simp
    next
      case False
      then have "hd (xs @ ys) = hd xs" by simp
      with h ih show ?thesis unfolding adjacent_underscores_Cons by simp
    qed
    with ih show ?thesis by blast
  qed
qed

lemma strip_middle: "\<exists>p q. s = p @ strip chars s @ q"
proof -
  let ?P = "\<lambda>c. c \<in> set chars"
  let ?y = "dropWhile ?P s"
  let ?r = "rev ?y"
  have "rev (takeWhile ?P ?r @ dropWhile ?P ?r) = rev ?r"
    by (simp only: takeWhile_dropWhile_id)
  then have "rev (dropWhile ?P ?r) @ rev (takeWhile ?P ?r) = ?y"
    by (simp only: rev_append rev_rev_ident)
  then have 2: "?y = strip chars s @ rev (takeWhile ?P ?r)"
    by (simp only: strip_def)
  have "s = takeWhile ?P s @ ?y" by simp
  with 2 have "s = takeWhile ?P s @ strip chars s @ rev (takeWhile ?P ?r)" by simp
  then show ?thesis by blast
qed

lemma strip_no_run:
  assumes "\<not> adjacent_underscores s"
  shows "\<not> adjacent_underscores (strip chars s)"
proof -
  obtain p q where "s = p @ strip chars s @ q" using strip_middle by blast
  with assms have "\<not> adjacent_underscores (p @ strip chars s @ q)" by simp
  then have "\<not> adjacent_underscores (strip chars s @ q)"
    using adjacent_underscores_append by blast
  then show ?thesis using adjacent_underscores_append by blast
qed

lemma strip_subset: "set (strip chars s) \<subseteq> set s"
proof -
  obtain p q where "s = p @ strip chars s @ q" using strip_middle by blast
  then have "set s = set p \<union> set (strip chars s) \<union> set q"
    by (metis set_append sup_assoc)
  then show ?thesis by blast
qed

lemma strip_ends:
  assumes "strip chars s \<noteq> []"
  shows "hd (strip chars s) \<notin> set chars \<and> last (strip chars s) \<notin> set chars"
proof -
  let ?P = "\<lambda>c. c \<in> set chars"
  let ?y = "dropWhile ?P s"
  let ?d = "dropWhile ?P (rev ?y)"
  have z: "strip chars s = rev ?d" by (simp only: strip_def)
  from assms have "rev ?d \<noteq> []" unfolding strip_def .
  then have nz: "?d \<noteq> []" by simp
  then have "\<not> ?P (hd ?d)" by (rule hd_dropWhile)
  moreover have "last (rev ?d) = hd ?d" by (rule last_rev)
  ultimately have l: "last (rev ?d) \<notin> set chars" by (simp only: simp_thms)
  have "?y \<noteq> []"
  proof
    assume "?y = []"
    then have "?d = []" by (simp only: rev.simps dropWhile.simps)
    with nz show False by (rule notE)
  qed
  then have h: "hd ?y \<notin> set chars" by (rule hd_dropWhile)
  have "rev (takeWhile ?P (rev ?y) @ ?d) = rev (rev ?y)"
    by (simp only: takeWhile_dropWhile_id)
  then have "?y = rev ?d @ rev (takeWhile ?P (rev ?y))"
    by (simp only: rev_append rev_rev_ident)
  then have "hd ?y = hd (rev ?d @ rev (takeWhile ?P (rev ?y)))" by (rule arg_cong)
  also have "\<dots> = hd (rev ?d)" using \<open>rev ?d \<noteq> []\<close> by (rule hd_append2)
  finally have "hd (rev ?d) \<notin> set chars" using h by (simp only: simp_thms)
  with l show ?thesis by (simp only: z simp_thms)
qed

lemma strip_fixed:
  assumes "s = [] \<or> (hd s \<notin> set chars \<and> last s \<notin> set chars)"
  shows "strip chars s = s"
proof (cases "s = []")
  case True
  then show ?thesis by (simp add: strip_def)
next
  case False
  with assms have h: "hd s \<notin> set chars" and l: "last s \<notin> set chars" by auto
  from False h have 1: "dropWhile (\<lambda>c. c \<in> set chars) s = s" by (cases s) auto
  from False l have "hd (rev s) \<notin> set chars" by (simp add: hd_rev)
  with False have 2: "dropWhile (\<lambda>c. c \<in> set chars) (rev s) = rev s" by (cases "rev s") auto
  show ?thesis by (simp add: strip_def 1 2)
qed

lemma strip_all:
  assumes "set s \<subseteq> set chars"
  shows "strip chars s = []"
proof -
  from assms have "\<forall>c \<in> set s. c \<in> set chars" by blast
  then have d: "dropWhile (\<lambda>c. c \<in> set chars) s = []" by (simp only: dropWhile_eq_Nil_conv)
  show ?thesis unfolding strip_def d by simp
qed

lemma replace_illegal_clean: "c \<in> set (replace_illegal s) \<Longrightarrow> c \<notin> set illegal_chars"
  by (auto simp: replace_illegal_def illegal_chars_def)

lemma replace_illegal_fixed: "set s \<inter> set illegal_chars = {} \<Longrightarrow> replace_illegal s = s"
  unfolding replace_illegal_def by (induction s) auto

lemma sanitize_filename_clean: "set (sanitize_filename x) \<inter> set illegal_chars = {}"
proof -
  have "set (sanitize_filename x) \<subseteq> set (replace_illegal x)"
    unfolding sanitize_filename_def
    using strip_subset [of "''_ ''" "collapse_underscores (replace_illegal x)"]
      collapse_underscores_subset [of "replace_illegal x"] by auto
  then show ?thesis using replace_illegal_clean by blast
qed

lemma sanitize_filename_no_run: "\<not> adjacent_underscores (sanitize_filename x)"
  unfolding sanitize_filename_def by (rule strip_no_run) (rule collapse_underscores_no_run)

lemma sanitize_filename_ends:
  "sanitize_filename x = [] \<or>
   (hd (sanitize_filename x) \<notin> set ''_ '' \<and> last (sanitize_filename x) \<notin> set ''_ '')"
  unfolding sanitize_filename_def using strip_ends by blast

lemma sanitize_filename_removable:
  assumes "\<forall>c \<in> set b. removable c"
  shows "sanitize_filename b = []"
proof -
  have "set (replace_illegal b) \<subseteq> {CHR ''_'', CHR '' ''}"
    using assms by (auto simp: replace_illegal_def removable_def)
  then have "set (collapse_underscores (replace_illegal b)) \<subseteq> set ''_ ''"
    using collapse_underscores_subset [of "replace_illegal b"] by auto
  then show ?thesis unfolding sanitize_filename_def by (rule strip_all)
qed

text \<open>
  C6: sanitizing is idempotent.  A sanitized name holds none of the nine characters
  \<open>< > : " / \ | ? *\<close>, no two underscores next to each other, and neither starts nor ends
  with an underscore or a space, so sanitizing it again changes nothing.
\<close>

theorem sanitize_filename_idempotent:
  "sanitize_filename (sanitize_filename x) = sanitize_filename x \<and>
   set (sanitize_filename x) \<inter> set illegal_chars = {} \<and>
   \<not> adjacent_underscores (sanitize_filename x) \<and>
   (sanitize_filename x = [] \<or>
    (hd (sanitize_filename x) \<notin> set ''_ '' \<and> last (sanitize_filename x) \<notin> set ''_ ''))"
proof -
  let ?t = "sanitize_filename x"
  have a: "replace_illegal ?t = ?t"
    by (rule replace_illegal_fixed) (rule sanitize_filename_clean)
  have b: "collapse_underscores ?t = ?t"
    by (rule collapse_underscores_fixed) (rule sanitize_filename_no_run)
  have c: "strip ''_ '' ?t = ?t"
    by (rule strip_fixed) (rule sanitize_filename_ends)
  have "sanitize_filename ?t = ?t"
    unfolding sanitize_filename_def [of ?t] a b c ..
  then show ?thesis
    using sanitize_filename_clean sanitize_filename_no_run sanitize_filename_ends by blast
qed

theorem sanitize_filename_idempotent_witness:
  "sanitize_filename ''__a<>b  __ c: _'' = ''a_b  _ c'' \<and>
   sanitize_filename ''a_b  _ c'' = ''a_b  _ c''"
proof -
  have 1: "sanitize_filename ''__a<>b  __ c: _'' = ''a_b  _ c''"
    by code_simp
  from sanitize_filename_idempotent [of "''__a<>b  __ c: _''"]
  have "sanitize_filename (sanitize_filename ''__a<>b  __ c: _'') =
        sanitize_filename ''__a<>b  __ c: _''" by blast
  with 1 show ?thesis by simp
qed

section \<open>The PDF extension\<close>

lemma lower_append: "lower (s @ t) = lower s @ lower t"
  by (simp add: lower_def)

lemma lower_PDF_EXTENSION: "lower PDF_EXTENSION = PDF_EXTENSION"
  by (simp add: PDF_EXTENSION_def lower_def lower_char_def)

lemma endswith_append: "endswith (s @ t) t"
  by (simp add: endswith_def)

lemma ensure_pdf_extension_ends: "endswith (lower (ensure_pdf_extension s)) PDF_EXTENSION"
  by (simp add: ensure_pdf_extension_def lower_append lower_PDF_EXTENSION endswith_append)

lemma ensure_pdf_extension_Nil: "ensure_pdf_extension [] = ''.pdf''"
  by (simp add: ensure_pdf_extension_def endswith_def PDF_EXTENSION_def lower_def)

text \<open>
  C10: \<open>ensure_pdf_extension\<close> is idempotent, its result ends with \<open>.pdf\<close> when letter
  case is ignored, and it returns its argument exactly when the argument already ends so.
\<close>

theorem ensure_pdf_extension_idempotent:
  "ensure_pdf_extension (ensure_pdf_extension s) = ensure_pdf_extension s \<and>
   endswith (lower (ensure_pdf_extension s)) PDF_EXTENSION \<and>
   (ensure_pdf_extension s = s \<longleftrightarrow> endswith (lower s) PDF_EXTENSION)"
proof -
  have 1: "ensure_pdf_extension (ensure_pdf_extension s) = ensure_pdf_extension s"
    using ensure_pdf_extension_ends [of s]
    by (simp add: ensure_pdf_extension_def [of "ensure_pdf_extension s"])
  have 2: "ensure_pdf_extension s = s \<longleftrightarrow> endswith (lower s) PDF_EXTENSION"
    by (simp add: ensure_pdf_extension_def PDF_EXTENSION_def)
  from 1 2 ensure_pdf_extension_ends show ?thesis by blast
qed

theorem ensure_pdf_extension_idempotent_witness:
  "ensure_pdf_extension ''Scan.Pdf'' = ''Scan.Pdf'' \<and>
   ensure_pdf_extension ''notes'' = ''notes.pdf'' \<and>
   ensure_pdf_extension ''notes.pdf'' = ''notes.pdf''"
proof -
  have a: "endswith (lower ''Scan.Pdf'') PDF_EXTENSION" by code_simp
  have b: "ensure_pdf_extension ''notes'' = ''notes.pdf''" by code_simp
  from ensure_pdf_extension_idempotent [of "''Scan.Pdf''"] a
  have 1: "ensure_pdf_extension ''Scan.Pdf'' = ''Scan.Pdf''" by blast
  from ensure_pdf_extension_idempotent [of "''notes''"] b
  have 2: "ensure_pdf_extension ''notes.pdf'' = ''notes.pdf''" by simp
  from 1 b 2 show ?thesis by blast
qed

section \<open>The output name\<close>

lemma resolve_output_name_base:
  "resolve_output_name settings folder =
   ensure_pdf_extension (sanitize_filename (base_name settings folder))"
  by (simp add: resolve_output_name_def base_name_def split: option.split)

lemma sanitize_Report: "sanitize_filename ''Report'' = ''Report''"
  by code_simp

lemma ensure_Report: "ensure_pdf_extension ''Report'' = ''Report.pdf''"
  by code_simp

text \<open>
  C5: for the output name \<open>Report\<close>, sanitizing changes nothing, the extension is not
  there under a comparison that ignores case, so it is appended, and with no file of
  that name at the destination the resolved path is that of \<open>Report.pdf\<close>.
\<close>

theorem resolve_output_name_Report:
  assumes "output_name settings = Some ''Report''"
    and "\<not> exists (dest @ [''Report.pdf''])"
  shows "sanitize_filename ''Report'' = ''Report'' \<and>
         \<not> endswith (lower ''Report'') PDF_EXTENSION \<and>
         resolve_output_name settings folder = ''Report.pdf'' \<and>
         ensure_unique_output exists now (dest @ [resolve_output_name settings folder]) =
           Returned (dest @ [''Report.pdf''])"
proof -
  have b: "base_name settings folder = ''Report''"
    using assms(1) by (simp add: base_name_def)
  have n: "resolve_output_name settings folder = ''Report.pdf''"
    unfolding resolve_output_name_base b sanitize_Report ensure_Report ..
  have e: "\<not> endswith (lower ''Report'') PDF_EXTENSION" by code_simp
  have u: "ensure_unique_output exists now (dest @ [''Report.pdf'']) =
           Returned (dest @ [''Report.pdf''])"
    using assms(2) by (simp add: ensure_unique_output_def)
  from sanitize_Report e n u show ?thesis by simp
qed

theorem resolve_output_name_Report_witness:
  "resolve_output_name
     \<lparr>folder_path = [''home'', ''docs''], recursive = False,
      output_name = Some ''Report'', destination = None\<rparr> [''home'', ''docs''] = ''Report.pdf'' \<and>
   ensure_unique_output (\<lambda>p. p = [''home'', ''docs'', ''old.pdf''])
     \<lparr>year = 2024, month = 1, day = 2, hour = 3, minute = 4, second = 5\<rparr>
     ([''home'', ''docs''] @ [''Report.pdf'']) = Returned ([''home'', ''docs''] @ [''Report.pdf''])"
proof -
  let ?s = "\<lparr>folder_path = [''home'', ''docs''], recursive = False,
             output_name = Some ''Report'', destination = None\<rparr>"
  let ?ex = "\<lambda>p. p = [''home'', ''docs'', ''old.pdf'']"
  let ?now = "\<lparr>year = 2024, month = 1, day = 2, hour = 3, minute = 4, second = 5\<rparr>"
  have h1: "output_name ?s = Some ''Report''" by simp
  have h2: "\<not> ?ex ([''home'', ''docs''] @ [''Report.pdf''])" by simp
  note r = resolve_output_name_Report
    [where settings = ?s and exists = ?ex and dest = "[''home'', ''docs'']"
       and folder = "[''home'', ''docs'']" and now = ?now, OF h1 h2]
  from r have n: "resolve_output_name ?s [''home'', ''docs''] = ''Report.pdf''" by blast
  from r have "ensure_unique_output ?ex ?now
                 ([''home'', ''docs''] @ [resolve_output_name ?s [''home'', ''docs'']]) =
               Returned ([''home'', ''docs''] @ [''Report.pdf''])" by blast
  then have "ensure_unique_output ?ex ?now ([''home'', ''docs''] @ [''Report.pdf'']) =
             Returned ([''home'', ''docs''] @ [''Report.pdf''])" unfolding n .
  with n show ?thesis by blast
qed

text \<open>
  C9: when every character of the base name (the output name given by the user when
  it is not empty, the name of the source folder otherwise) is one that sanitizing
  replaces or strips, which is so for the empty base name, the sanitized name is empty
  and the resolved file name is \<open>.pdf\<close>.
\<close>

theorem resolve_output_name_bare_extension:
  assumes "\<forall>c \<in> set (base_name settings folder). removable c"
  shows "sanitize_filename (base_name settings folder) = [] \<and>
         resolve_output_name settings folder = ''.pdf''"
proof -
  have "sanitize_filename (base_name settings folder) = []"
    using assms by (rule sanitize_filename_removable)
  then show ?thesis
    by (simp add: resolve_output_name_base ensure_pdf_extension_Nil)
qed

theorem resolve_output_name_bare_extension_witness:
  "resolve_output_name
     \<lparr>folder_path = [''home'', ''docs''], recursive = False,
      output_name = Some ''<_ ?>'', destination = None\<rparr> [''home'', ''docs''] = ''.pdf'' \<and>
   resolve_output_name
     \<lparr>folder_path = [], recursive = False,
      output_name = Some [], destination = None\<rparr> [] = ''.pdf''"
proof -
  have 1: "\<forall>c \<in> set (base_name
     \<lparr>folder_path = [''home'', ''docs''], recursive = False,
      output_name = Some ''<_ ?>'', destination = None\<rparr> [''home'', ''docs'']). removable c"
    by (simp add: base_name_def removable_def illegal_chars_def)
  have 2: "\<forall>c \<in> set (base_name
     \<lparr>folder_path = [], recursive = False,
      output_name = Some [], destination = None\<rparr> []). removable c"
    by (simp add: base_name_def path_name_def)
  from resolve_output_name_bare_extension [OF 1] resolve_output_name_bare_extension [OF 2]
  show ?thesis by blast
qed

section \<open>The timestamp\<close>

lemma is_digit_digit_char: "is_digit (digit_char d)"
proof -
  have "d mod 10 < length ''0123456789''" by simp
  then have "''0123456789'' ! (d mod 10) \<in> set ''0123456789''" by (rule nth_mem)
  then show ?thesis by (simp only: is_digit_def digit_char_def)
qed

lemma decimal_digits: "\<forall>c \<in> set (decimal n). is_digit c"
proof (induction n rule: decimal.induct)
  case (1 n)
  show ?case
  proof (cases "n < 10")
    case True
    then show ?thesis by (simp add: decimal.simps [of n] is_digit_digit_char)
  next
    case False
    with 1 show ?thesis by (simp add: decimal.simps [of n] is_digit_digit_char)
  qed
qed

lemma length_decimal_1: "n < 10 \<Longrightarrow> length (decimal n) = 1"
  by (simp add: decimal.simps [of n])

lemma length_decimal_2: "10 \<le> n \<Longrightarrow> n < 100 \<Longrightarrow> length (decimal n) = 2"
  by (simp add: decimal.simps [of n] length_decimal_1)

lemma length_decimal_3: "100 \<le> n \<Longrightarrow> n < 1000 \<Longrightarrow> length (decimal n) = 3"
  by (simp add: decimal.simps [of n] length_decimal_2)

lemma length_decimal_4: "1000 \<le> n \<Longrightarrow> n < 10000 \<Longrightarrow> length (decimal n) = 4"
  by (simp add: decimal.simps [of n] length_decimal_3)

lemma length_zero_pad_2: "n < 100 \<Longrightarrow> length (zero_pad 2 n) = 2"
  by (cases "n < 10") (simp_all add: zero_pad_def length_decimal_1 length_decimal_2)

lemma zero_pad_digits: "\<forall>c \<in> set (zero_pad w n). is_digit c"
proof
  fix c
  assume "c \<in> set (zero_pad w n)"
  then have "c \<in> set (replicate (w - length (decimal n)) CHR ''0'') \<or> c \<in> set (decimal n)"
    by (simp only: zero_pad_def set_append Un_iff)
  then show "is_digit c"
  proof
    assume "c \<in> set (replicate (w - length (decimal n)) CHR ''0'')"
    then have "c = CHR ''0''" by (simp split: if_splits)
    then show ?thesis by (simp add: is_digit_def)
  next
    assume "c \<in> set (decimal n)"
    with decimal_digits show ?thesis by blast
  qed
qed

lemma strftime_parts: "strftime t = date_part t @ ''_'' @ time_part t"
  by (simp add: strftime_def date_part_def time_part_def)

lemma date_part_shape:
  assumes "valid_datetime t"
  shows "length (date_part t) = 8 \<and> (\<forall>c \<in> set (date_part t). is_digit c)"
proof -
  from assms have "length (decimal (year t)) = 4"
    by (intro length_decimal_4) (simp_all add: valid_datetime_def)
  moreover from assms have "length (zero_pad 2 (month t)) = 2"
    by (intro length_zero_pad_2) (simp add: valid_datetime_def)
  moreover from assms have "length (zero_pad 2 (day t)) = 2"
    by (intro length_zero_pad_2) (simp add: valid_datetime_def)
  ultimately have "length (date_part t) = 8" by (simp add: date_part_def)
  moreover have "\<forall>c \<in> set (date_part t). is_digit c"
    using decimal_digits [of "year t"] zero_pad_digits [of 2 "month t"]
      zero_pad_digits [of 2 "day t"] unfolding date_part_def set_append by blast
  ultimately show ?thesis by blast
qed

lemma time_part_shape:
  assumes "valid_datetime t"
  shows "length (time_part t) = 6 \<and> (\<forall>c \<in> set (time_part t). is_digit c)"
proof -
  from assms have "length (zero_pad 2 (hour t)) = 2"
    by (intro length_zero_pad_2) (simp add: valid_datetime_def)
  moreover from assms have "length (zero_pad 2 (minute t)) = 2"
    by (intro length_zero_pad_2) (simp add: valid_datetime_def)
  moreover from assms have "length (zero_pad 2 (second t)) = 2"
    by (intro length_zero_pad_2) (simp add: valid_datetime_def)
  ultimately have "length (time_part t) = 6" by (simp add: time_part_def)
  moreover have "\<forall>c \<in> set (time_part t). is_digit c"
    using zero_pad_digits [of 2 "hour t"] zero_pad_digits [of 2 "minute t"]
      zero_pad_digits [of 2 "second t"] unfolding time_part_def set_append by blast
  ultimately show ?thesis by blast
qed

section \<open>Stem and extension\<close>

lemma lower_char_dot: "lower_char c = CHR ''.'' \<Longrightarrow> c = CHR ''.''"
  by (simp add: lower_char_def split: if_splits)

lemma lower_char_letter:
  "lower_char c = CHR ''p'' \<or> lower_char c = CHR ''d'' \<or> lower_char c = CHR ''f'' \<Longrightarrow>
   c \<noteq> CHR ''.''"
  by (auto simp: lower_char_def)

lemma lower_pdf_length: "lower e = ''.pdf'' \<Longrightarrow> length e = 4"
proof -
  assume "lower e = ''.pdf''"
  then have "length (lower e) = length ''.pdf''" by (rule arg_cong)
  then show ?thesis by (simp add: lower_def)
qed

lemma length_4_shape: "length e = 4 \<Longrightarrow> \<exists>d a b c. e = [d, a, b, c]"
  by (auto simp: eval_nat_numeral length_Suc_conv)

lemma lower_pdf_shape:
  assumes "lower e = ''.pdf''"
  shows "\<exists>a b c. e = [CHR ''.'', a, b, c] \<and> a \<noteq> CHR ''.'' \<and> b \<noteq> CHR ''.'' \<and> c \<noteq> CHR ''.''"
proof -
  from assms have "length e = 4" by (rule lower_pdf_length)
  then obtain d a b c where e: "e = [d, a, b, c]"
    using length_4_shape by blast
  with assms have "lower_char d = CHR ''.''" "lower_char a = CHR ''p''"
    "lower_char b = CHR ''d''" "lower_char c = CHR ''f''" by (simp_all add: lower_def)
  then have "d = CHR ''.''" "a \<noteq> CHR ''.''" "b \<noteq> CHR ''.''" "c \<noteq> CHR ''.''"
    using lower_char_dot lower_char_letter by blast+
  with e show ?thesis by blast
qed

lemma rfind_dot_ext:
  assumes "lower e = ''.pdf''"
  shows "rfind_dot (n @ e) = Some (length n)"
proof -
  from lower_pdf_shape [OF assms] obtain a b c
    where e: "e = [CHR ''.'', a, b, c]" and d: "a \<noteq> CHR ''.''" "b \<noteq> CHR ''.''" "c \<noteq> CHR ''.''"
    by blast
  from d show ?thesis by (simp add: rfind_dot_def e)
qed

lemma stem_ext:
  assumes "lower e = ''.pdf''"
  shows "stem (n @ e) = (if n = [] then e else n)"
proof -
  from assms have "length e = 4" by (rule lower_pdf_length)
  then show ?thesis by (simp add: stem_def rfind_dot_ext [OF assms])
qed

lemma suffix_of_ext:
  assumes "lower e = ''.pdf''"
  shows "suffix_of (n @ e) = (if n = [] then [] else e)"
proof -
  from assms have "length e = 4" by (rule lower_pdf_length)
  then show ?thesis by (simp add: suffix_of_def rfind_dot_ext [OF assms])
qed

lemma resolved_name_shape:
  "\<exists>n e. resolve_output_name settings folder = n @ e \<and> lower e = ''.pdf''"
proof -
  let ?r = "resolve_output_name settings folder"
  let ?k = "length (lower ?r) - length ''.pdf''"
  have "endswith (lower ?r) ''.pdf''"
    using ensure_pdf_extension_ends [of "sanitize_filename (base_name settings folder)"]
    by (simp add: resolve_output_name_base PDF_EXTENSION_def)
  then have "drop ?k (lower ?r) = ''.pdf''"
    unfolding endswith_def by blast
  then have "lower (drop ?k ?r) = ''.pdf''"
    by (simp only: lower_def drop_map)
  moreover have "?r = take ?k ?r @ drop ?k ?r" by simp
  ultimately show ?thesis by blast
qed

lemma path_name_snoc: "path_name (dest @ [x]) = x"
  by (simp add: path_name_def)

text \<open>
  C4: a path that does not exist is returned unchanged.  For a path that exists, whose
  name ends with \<open>.pdf\<close> in some letter case as every resolved output name does, the
  new name is the stem of the old one, an underscore, eight digits, an underscore, six
  digits and the constant \<open>.pdf\<close>: the extension of the old name is replaced by
  \<open>.pdf\<close>, not kept.  The stem is the old name without its extension when something
  stands before the extension.  The result does not depend on whether the new path
  exists: there is one check and no retry.
\<close>

theorem ensure_unique_output_once:
  assumes "valid_datetime now" and "lower e = ''.pdf''"
  shows "ensure_unique_output exists now (dest @ [n @ e]) =
           (if exists (dest @ [n @ e])
            then Returned (dest @ [stem (n @ e) @ ''_'' @ date_part now @ ''_'' @
                                   time_part now @ ''.pdf''])
            else Returned (dest @ [n @ e])) \<and>
         (n \<noteq> [] \<longrightarrow> stem (n @ e) = n) \<and>
         length (date_part now) = 8 \<and> length (time_part now) = 6 \<and>
         (\<forall>c \<in> set (date_part now @ time_part now). is_digit c)"
proof -
  from assms(2) have "e \<noteq> []" by (auto simp: lower_def)
  then have 1: "ensure_unique_output exists now (dest @ [n @ e]) =
           (if exists (dest @ [n @ e])
            then Returned (dest @ [stem (n @ e) @ ''_'' @ date_part now @ ''_'' @
                                   time_part now @ ''.pdf''])
            else Returned (dest @ [n @ e]))"
    by (simp add: ensure_unique_output_def with_name_def path_name_snoc strftime_parts
        PDF_EXTENSION_def)
  have 2: "n \<noteq> [] \<longrightarrow> stem (n @ e) = n"
    by (simp add: stem_ext [OF assms(2)])
  from date_part_shape [OF assms(1)] time_part_shape [OF assms(1)]
  have 3: "length (date_part now) = 8 \<and> length (time_part now) = 6 \<and>
           (\<forall>c \<in> set (date_part now @ time_part now). is_digit c)"
    unfolding set_append by blast
  from 1 2 3 show ?thesis by blast
qed

theorem ensure_unique_output_once_witness:
  "ensure_unique_output ((=) [''out'', ''Report.pdf''])
     \<lparr>year = 2024, month = 1, day = 2, hour = 3, minute = 4, second = 5\<rparr>
     ([''out''] @ [''Report'' @ ''.pdf'']) =
   Returned ([''out''] @ [''Report'' @ ''_'' @ ''20240102'' @ ''_'' @ ''030405'' @ ''.pdf''])"
proof -
  let ?now = "\<lparr>year = 2024, month = 1, day = 2, hour = 3, minute = 4, second = 5\<rparr>"
  have v: "valid_datetime ?now" by (simp add: valid_datetime_def)
  have l: "lower ''.pdf'' = ''.pdf''" by code_simp
  have d: "date_part ?now = ''20240102''" by code_simp
  have t: "time_part ?now = ''030405''" by code_simp
  note r = ensure_unique_output_once
    [where now = ?now and e = "''.pdf''" and n = "''Report''" and dest = "[''out'']"
       and exists = "(=) [''out'', ''Report.pdf'']", OF v l]
  from r have s: "stem (''Report'' @ ''.pdf'') = ''Report''" by blast
  from r have "ensure_unique_output ((=) [''out'', ''Report.pdf'']) ?now
                 ([''out''] @ [''Report'' @ ''.pdf'']) =
               (if [''out'', ''Report.pdf''] = [''out''] @ [''Report'' @ ''.pdf'']
                then Returned ([''out''] @ [stem (''Report'' @ ''.pdf'') @ ''_'' @
                       date_part ?now @ ''_'' @ time_part ?now @ ''.pdf''])
                else Returned ([''out''] @ [''Report'' @ ''.pdf'']))" by blast
  then show ?thesis unfolding s d t by simp
qed

text \<open>
  The claim as stated fails for the output name \<open>Report.PDF\<close>, which sanitizing and
  \<open>ensure_pdf_extension\<close> leave as it is: its stem is \<open>Report\<close> and its extension is
  \<open>.PDF\<close>, and the new name does not end with \<open>.PDF\<close>.
\<close>

theorem ensure_unique_output_insert_counterexample:
  "resolve_output_name
     \<lparr>folder_path = [''out''], recursive = False, output_name = Some ''Report.PDF'',
      destination = None\<rparr> [''out''] = ''Report.PDF'' \<and>
   ensure_unique_output ((=) [''out'', ''Report.PDF''])
     \<lparr>year = 2024, month = 1, day = 2, hour = 3, minute = 4, second = 5\<rparr>
     [''out'', ''Report.PDF''] \<noteq>
   Returned [''out'', stem ''Report.PDF'' @ ''_'' @
     strftime \<lparr>year = 2024, month = 1, day = 2, hour = 3, minute = 4, second = 5\<rparr> @
     suffix_of ''Report.PDF'']"
  by code_simp

section \<open>Discovery\<close>

lemma glob_match_ext: "glob_match n = endswith n PDF_EXTENSION"
  by (simp add: glob_match_def PDF_EXTENSION_def)

lemma glob_children_filter:
  "glob_children dir es =
   filter (\<lambda>e. glob_match (path_name (fst e))) (map (\<lambda>e. (dir @ [fst e], snd e)) es)"
  by (simp add: glob_children_def filter_map comp_def path_name_def)

lemma glob_rec_filter:
  "glob_rec dir k = filter (\<lambda>e. glob_match (path_name (fst e))) (tree_entries dir k)"
  "glob_rec_list dir es =
   filter (\<lambda>e. glob_match (path_name (fst e))) (tree_entries_list dir es)"
  by (induction dir k and dir es rule: glob_rec_glob_rec_list.induct)
     (simp_all add: glob_children_filter)

lemma glob_in_scope:
  "glob w settings = filter (\<lambda>e. glob_match (path_name (fst e))) (in_scope w settings)"
  by (simp add: glob_def in_scope_def glob_rec_filter glob_children_filter
      split: option.split node.split)

lemma scan_mset:
  "mset (scan w settings) = mset (map fst (filter pdf_file_entry (in_scope w settings)))"
proof -
  have "mset (scan w settings) = mset (map fst (filter is_file (glob w settings)))"
    by (simp add: scan_def)
  also have "filter is_file (glob w settings) = filter pdf_file_entry (in_scope w settings)"
    unfolding glob_in_scope filter_filter
    by (rule filter_cong) (auto simp: is_file_def pdf_file_entry_def glob_match_ext)
  finally show ?thesis .
qed

lemma scan_sorted: "sorted (map (\<lambda>p. lower (path_name p)) (scan w settings))"
proof -
  let ?key = "\<lambda>e. lower (path_name (fst e))"
  have "sorted (map ?key (sort_key ?key (glob w settings)))" by (rule sorted_sort_key)
  then have "sorted (map ?key (filter is_file (sort_key ?key (glob w settings))))"
    by (rule sorted_filter)
  then show ?thesis by (simp add: scan_def comp_def)
qed

lemma scan_sort_key:
  "scan w settings =
   map fst (sort_key (\<lambda>e. lower (path_name (fst e)))
              (filter pdf_file_entry (in_scope w settings)))"
proof -
  let ?key = "\<lambda>e. lower (path_name (fst e))"
  have f: "filter is_file (glob w settings) = filter pdf_file_entry (in_scope w settings)"
    unfolding glob_in_scope filter_filter
    by (rule filter_cong) (auto simp: is_file_def pdf_file_entry_def glob_match_ext)
  have "scan w settings = map fst (filter is_file (sort_key ?key (glob w settings)))"
    by (simp add: scan_def)
  also have "\<dots> = map fst (sort_key ?key (filter is_file (glob w settings)))"
    by (simp only: filter_sort)
  finally show ?thesis unfolding f .
qed

text \<open>
  C2: the scan returns exactly the regular files with the extension \<open>.pdf\<close> among the
  entries it is about, each as often as it is listed, ordered by their names in small
  letters (the name, not the path; files whose names agree in small letters stay in the
  order in which they are listed), and the empty list when there is none.
\<close>

theorem scan_exactly_pdf_files:
  "scan w settings =
     map fst (sort_key (\<lambda>e. lower (path_name (fst e)))
                (filter pdf_file_entry (in_scope w settings))) \<and>
   mset (scan w settings) = mset (map fst (filter pdf_file_entry (in_scope w settings))) \<and>
   length (scan w settings) = length (filter pdf_file_entry (in_scope w settings)) \<and>
   sorted (map (\<lambda>p. lower (path_name p)) (scan w settings)) \<and>
   (\<forall>i j. i < j \<and> j < length (scan w settings) \<longrightarrow>
      lower (path_name (scan w settings ! i)) \<le> lower (path_name (scan w settings ! j))) \<and>
   (filter pdf_file_entry (in_scope w settings) = [] \<longrightarrow> scan w settings = [])"
proof -
  have m: "mset (scan w settings) = mset (map fst (filter pdf_file_entry (in_scope w settings)))"
    by (rule scan_mset)
  then have "length (scan w settings) =
             length (map fst (filter pdf_file_entry (in_scope w settings)))"
    by (rule mset_eq_length)
  then have l: "length (scan w settings) = length (filter pdf_file_entry (in_scope w settings))"
    by (simp only: length_map)
  have o: "\<forall>i j. i < j \<and> j < length (scan w settings) \<longrightarrow>
      lower (path_name (scan w settings ! i)) \<le> lower (path_name (scan w settings ! j))"
  proof (intro allI impI)
    fix i j
    assume ij: "i < j \<and> j < length (scan w settings)"
    let ?ks = "map (\<lambda>p. lower (path_name p)) (scan w settings)"
    from ij have "i \<le> j" "j < length ?ks" by simp_all
    with scan_sorted [of w settings] have "?ks ! i \<le> ?ks ! j" by (rule sorted_nth_mono)
    with ij show "lower (path_name (scan w settings ! i)) \<le>
                  lower (path_name (scan w settings ! j))" by simp
  qed
  have e: "filter pdf_file_entry (in_scope w settings) = [] \<longrightarrow> scan w settings = []"
  proof
    assume a: "filter pdf_file_entry (in_scope w settings) = []"
    show "scan w settings = []" unfolding scan_sort_key a by simp
  qed
  from scan_sort_key m l scan_sorted o e show ?thesis by blast
qed

theorem scan_exactly_pdf_files_witness:
  "scan \<lparr>source_node = Some (Dir [(''notes.txt'', File), (''scans.pdf'', Dir [])]),
         read_pdf = (\<lambda>p. AllPages []), mkdir_ok = True, dest_names = [],
         clock = \<lparr>year = 2024, month = 1, day = 2, hour = 3, minute = 4, second = 5\<rparr>,
         pdf_lib_ok = True, has_tqdm = False, write_ok = True, written_size = length\<rparr>
        \<lparr>folder_path = [''docs''], recursive = False, output_name = None,
         destination = None\<rparr> = [] \<and>
   scan \<lparr>source_node = Some (Dir [(''b.pdf'', File), (''notes.txt'', File),
                                  (CHR 0xC4 # ''b.pdf'', File), (''Z.pdf'', File),
                                  (''scans.pdf'', Dir []), (CHR 0xE4 # ''a.pdf'', File),
                                  (''A.pdf'', File)]),
         read_pdf = (\<lambda>p. AllPages []), mkdir_ok = True, dest_names = [],
         clock = \<lparr>year = 2024, month = 1, day = 2, hour = 3, minute = 4, second = 5\<rparr>,
         pdf_lib_ok = True, has_tqdm = False, write_ok = True, written_size = length\<rparr>
        \<lparr>folder_path = [''docs''], recursive = False, output_name = None,
         destination = None\<rparr> =
     [[''docs'', ''A.pdf''], [''docs'', ''b.pdf''], [''docs'', ''Z.pdf''],
      [''docs'', CHR 0xE4 # ''a.pdf''], [''docs'', CHR 0xC4 # ''b.pdf'']]"
proof -
  let ?w = "\<lparr>source_node = Some (Dir [(''notes.txt'', File), (''scans.pdf'', Dir [])]),
         read_pdf = (\<lambda>p. AllPages []), mkdir_ok = True, dest_names = [],
         clock = \<lparr>year = 2024, month = 1, day = 2, hour = 3, minute = 4, second = 5\<rparr>,
         pdf_lib_ok = True, has_tqdm = False, write_ok = True, written_size = length\<rparr>"
  let ?v = "\<lparr>source_node = Some (Dir [(''b.pdf'', File), (''notes.txt'', File),
                                  (CHR 0xC4 # ''b.pdf'', File), (''Z.pdf'', File),
                                  (''scans.pdf'', Dir []), (CHR 0xE4 # ''a.pdf'', File),
                                  (''A.pdf'', File)]),
         read_pdf = (\<lambda>p. AllPages []), mkdir_ok = True, dest_names = [],
         clock = \<lparr>year = 2024, month = 1, day = 2, hour = 3, minute = 4, second = 5\<rparr>,
         pdf_lib_ok = True, has_tqdm = False, write_ok = True, written_size = length\<rparr>"
  let ?s = "\<lparr>folder_path = [''docs''], recursive = False, output_name = None,
         destination = None\<rparr>"
  have "filter pdf_file_entry (in_scope ?w ?s) = []" by code_simp
  with scan_exactly_pdf_files [of ?w ?s] have 1: "scan ?w ?s = []" by blast
  have "map fst (sort_key (\<lambda>e. lower (path_name (fst e)))
                   (filter pdf_file_entry (in_scope ?v ?s))) =
     [[''docs'', ''A.pdf''], [''docs'', ''b.pdf''], [''docs'', ''Z.pdf''],
      [''docs'', CHR 0xE4 # ''a.pdf''], [''docs'', CHR 0xC4 # ''b.pdf'']]"
    by code_simp
  with scan_exactly_pdf_files [of ?v ?s] have 2: "scan ?v ?s =
     [[''docs'', ''A.pdf''], [''docs'', ''b.pdf''], [''docs'', ''Z.pdf''],
      [''docs'', CHR 0xE4 # ''a.pdf''], [''docs'', CHR 0xC4 # ''b.pdf'']]"
    by simp
  from 1 2 show ?thesis by blast
qed

lemma glob_rec_resolves:
  "(p, m) \<in> set (glob_rec dir k) \<longleftrightarrow>
     (\<exists>rel. p = dir @ rel \<and> rel \<noteq> [] \<and> resolves k rel m \<and> glob_match (last rel))"
  "(p, m) \<in> set (glob_rec_list dir es) \<longleftrightarrow>
     (\<exists>c rel. p = dir @ c # rel \<and> rel \<noteq> [] \<and>
        (\<exists>e \<in> set es. fst e = c \<and> resolves (snd e) rel m) \<and> glob_match (last rel))"
proof (induction dir k and dir es arbitrary: p m and p m rule: glob_rec_glob_rec_list.induct)
  case (1 dir es)
  have a: "(p, m) \<in> set (glob_children dir es) \<longleftrightarrow>
           (\<exists>c. p = dir @ [c] \<and> (\<exists>e \<in> set es. fst e = c \<and> snd e = m) \<and> glob_match c)"
    by (auto simp: glob_children_def)
  show ?case
  proof
    assume "(p, m) \<in> set (glob_rec dir (Dir es))"
    then consider "(p, m) \<in> set (glob_children dir es)" | "(p, m) \<in> set (glob_rec_list dir es)"
      by auto
    then show "\<exists>rel. p = dir @ rel \<and> rel \<noteq> [] \<and> resolves (Dir es) rel m \<and> glob_match (last rel)"
    proof cases
      case 1
      with a obtain c where "p = dir @ [c]" "\<exists>e \<in> set es. fst e = c \<and> snd e = m" "glob_match c"
        by blast
      then have "p = dir @ [c] \<and> [c] \<noteq> [] \<and> resolves (Dir es) [c] m \<and> glob_match (last [c])"
        by auto
      then show ?thesis by blast
    next
      case 2
      with "1.IH" obtain c rel where r: "p = dir @ c # rel" "rel \<noteq> []"
        "\<exists>e \<in> set es. fst e = c \<and> resolves (snd e) rel m" "glob_match (last rel)"
        by blast
      then have "p = dir @ (c # rel) \<and> c # rel \<noteq> [] \<and> resolves (Dir es) (c # rel) m \<and>
                 glob_match (last (c # rel))" by simp
      then show ?thesis by blast
    qed
  next
    assume "\<exists>rel. p = dir @ rel \<and> rel \<noteq> [] \<and> resolves (Dir es) rel m \<and> glob_match (last rel)"
    then obtain rel where r: "p = dir @ rel" "rel \<noteq> []" "resolves (Dir es) rel m"
      "glob_match (last rel)" by blast
    then obtain c cs where rel: "rel = c # cs" by (cases rel) auto
    show "(p, m) \<in> set (glob_rec dir (Dir es))"
    proof (cases "cs = []")
      case True
      with r rel have "(p, m) \<in> set (glob_children dir es)" unfolding a by auto
      then show ?thesis by simp
    next
      case False
      with r rel have "(p, m) \<in> set (glob_rec_list dir es)" unfolding "1.IH" by auto
      then show ?thesis by simp
    qed
  qed
next
  case (2 dir)
  show ?case by (auto simp: neq_Nil_conv)
next
  case (3 dir)
  show ?case by (auto simp: neq_Nil_conv)
next
  case (4 dir)
  show ?case by simp
next
  case (5 dir e es)
  have "(p, m) \<in> set (glob_rec_list dir (e # es)) \<longleftrightarrow>
        (p, m) \<in> set (glob_rec (dir @ [fst e]) (snd e)) \<or> (p, m) \<in> set (glob_rec_list dir es)"
    by simp
  also have "\<dots> \<longleftrightarrow>
        (\<exists>rel. p = (dir @ [fst e]) @ rel \<and> rel \<noteq> [] \<and> resolves (snd e) rel m \<and>
           glob_match (last rel)) \<or>
        (\<exists>c rel. p = dir @ c # rel \<and> rel \<noteq> [] \<and>
           (\<exists>e \<in> set es. fst e = c \<and> resolves (snd e) rel m) \<and> glob_match (last rel))"
    unfolding "5.IH" ..
  also have "\<dots> \<longleftrightarrow>
        (\<exists>c rel. p = dir @ c # rel \<and> rel \<noteq> [] \<and>
           (\<exists>e' \<in> set (e # es). fst e' = c \<and> resolves (snd e') rel m) \<and> glob_match (last rel))"
    by (simp only: append_assoc append_Cons append_Nil set_simps bex_simps insert_iff) blast
  finally show ?case .
qed

lemma scan_member: "p \<in> set (scan w settings) \<longleftrightarrow> (p, File) \<in> set (glob w settings)"
  by (force simp: scan_def is_file_def)

lemma glob_children_resolves:
  "(p, m) \<in> set (glob_children dir es) \<longleftrightarrow>
     (\<exists>rel. p = dir @ rel \<and> length rel = 1 \<and> resolves (Dir es) rel m \<and> glob_match (last rel))"
proof
  assume "(p, m) \<in> set (glob_children dir es)"
  then obtain e where "e \<in> set es" "glob_match (fst e)" "p = dir @ [fst e]" "m = snd e"
    by (auto simp: glob_children_def)
  then have "p = dir @ [fst e] \<and> length [fst e] = 1 \<and> resolves (Dir es) [fst e] m \<and>
             glob_match (last [fst e])" by auto
  then show "\<exists>rel. p = dir @ rel \<and> length rel = 1 \<and> resolves (Dir es) rel m \<and>
               glob_match (last rel)" by blast
next
  assume "\<exists>rel. p = dir @ rel \<and> length rel = 1 \<and> resolves (Dir es) rel m \<and> glob_match (last rel)"
  then obtain rel where r: "p = dir @ rel" "length rel = 1" "resolves (Dir es) rel m"
    "glob_match (last rel)" by blast
  from r(2) obtain c where "rel = [c]" by (cases rel) auto
  with r show "(p, m) \<in> set (glob_children dir es)"
    by (auto simp: glob_children_def)
qed

text \<open>
  C7: with the recursive flag the scan returns the regular \<open>.pdf\<close> files at every depth
  below the source folder, so those at depth 0 and those at depth 2; without it, only
  those that are entries of the source folder itself.
\<close>

theorem scan_recursive_depth:
  assumes "source_node w = Some (Dir es)"
  shows "p \<in> set (scan w settings) \<longleftrightarrow>
           (\<exists>rel. p = folder_path settings @ rel \<and> rel \<noteq> [] \<and>
              (recursive settings \<or> length rel = 1) \<and>
              resolves (Dir es) rel File \<and> endswith (last rel) PDF_EXTENSION)"
proof (cases "recursive settings")
  case True
  then have g: "glob w settings = glob_rec (folder_path settings) (Dir es)"
    using assms by (simp add: glob_def del: glob_rec.simps)
  show ?thesis
    unfolding scan_member g glob_rec_resolves(1) glob_match_ext using True by blast
next
  case False
  then have "glob w settings = glob_children (folder_path settings) es"
    using assms by (simp add: glob_def)
  then have "p \<in> set (scan w settings) \<longleftrightarrow>
      (\<exists>rel. p = folder_path settings @ rel \<and> length rel = 1 \<and> resolves (Dir es) rel File \<and>
         glob_match (last rel))"
    unfolding scan_member by (simp only: glob_children_resolves)
  also have "\<dots> \<longleftrightarrow>
      (\<exists>rel. p = folder_path settings @ rel \<and> rel \<noteq> [] \<and>
         (recursive settings \<or> length rel = 1) \<and>
         resolves (Dir es) rel File \<and> endswith (last rel) PDF_EXTENSION)"
    using False by (auto simp: glob_match_ext)
  finally show ?thesis .
qed

theorem scan_recursive_depth_witness:
  "[''docs'', ''a.pdf''] \<in> set (scan
      \<lparr>source_node = Some (Dir [(''a.pdf'', File),
                                (''sub'', Dir [(''deep'', Dir [(''c.pdf'', File)])])]),
       read_pdf = (\<lambda>p. AllPages []), mkdir_ok = True, dest_names = [],
       clock = \<lparr>year = 2024, month = 1, day = 2, hour = 3, minute = 4, second = 5\<rparr>,
       pdf_lib_ok = True, has_tqdm = False, write_ok = True, written_size = length\<rparr>
      \<lparr>folder_path = [''docs''], recursive = True, output_name = None, destination = None\<rparr>) \<and>
   [''docs'', ''sub'', ''deep'', ''c.pdf''] \<in> set (scan
      \<lparr>source_node = Some (Dir [(''a.pdf'', File),
                                (''sub'', Dir [(''deep'', Dir [(''c.pdf'', File)])])]),
       read_pdf = (\<lambda>p. AllPages []), mkdir_ok = True, dest_names = [],
       clock = \<lparr>year = 2024, month = 1, day = 2, hour = 3, minute = 4, second = 5\<rparr>,
       pdf_lib_ok = True, has_tqdm = False, write_ok = True, written_size = length\<rparr>
      \<lparr>folder_path = [''docs''], recursive = True, output_name = None, destination = None\<rparr>) \<and>
   [''docs'', ''sub'', ''deep'', ''c.pdf''] \<notin> set (scan
      \<lparr>source_node = Some (Dir [(''a.pdf'', File),
                                (''sub'', Dir [(''deep'', Dir [(''c.pdf'', File)])])]),
       read_pdf = (\<lambda>p. AllPages []), mkdir_ok = True, dest_names = [],
       clock = \<lparr>year = 2024, month = 1, day = 2, hour = 3, minute = 4, second = 5\<rparr>,
       pdf_lib_ok = True, has_tqdm = False, write_ok = True, written_size = length\<rparr>
      \<lparr>folder_path = [''docs''], recursive = False, output_name = None, destination = None\<rparr>)"
proof -
  let ?es = "[(''a.pdf'', File), (''sub'', Dir [(''deep'', Dir [(''c.pdf'', File)])])]"
  let ?w = "\<lparr>source_node = Some (Dir ?es),
       read_pdf = (\<lambda>p. AllPages []), mkdir_ok = True, dest_names = [],
       clock = \<lparr>year = 2024, month = 1, day = 2, hour = 3, minute = 4, second = 5\<rparr>,
       pdf_lib_ok = True, has_tqdm = False, write_ok = True, written_size = length\<rparr>"
  let ?r = "\<lparr>folder_path = [''docs''], recursive = True, output_name = None,
             destination = None\<rparr>"
  let ?n = "\<lparr>folder_path = [''docs''], recursive = False, output_name = None,
             destination = None\<rparr>"
  have src: "source_node ?w = Some (Dir ?es)" by simp
  have e: "endswith ''a.pdf'' PDF_EXTENSION" "endswith ''c.pdf'' PDF_EXTENSION" by code_simp+
  have "[''docs'', ''a.pdf''] = folder_path ?r @ [''a.pdf''] \<and> [''a.pdf''] \<noteq> [] \<and>
        (recursive ?r \<or> length [''a.pdf''] = 1) \<and> resolves (Dir ?es) [''a.pdf''] File \<and>
        endswith (last [''a.pdf'']) PDF_EXTENSION"
    using e by simp
  then have 1: "[''docs'', ''a.pdf''] \<in> set (scan ?w ?r)"
    unfolding scan_recursive_depth [OF src] by blast
  have "[''docs'', ''sub'', ''deep'', ''c.pdf''] = folder_path ?r @ [''sub'', ''deep'', ''c.pdf''] \<and>
        [''sub'', ''deep'', ''c.pdf''] \<noteq> [] \<and>
        (recursive ?r \<or> length [''sub'', ''deep'', ''c.pdf''] = 1) \<and>
        resolves (Dir ?es) [''sub'', ''deep'', ''c.pdf''] File \<and>
        endswith (last [''sub'', ''deep'', ''c.pdf'']) PDF_EXTENSION"
    using e by simp
  then have 2: "[''docs'', ''sub'', ''deep'', ''c.pdf''] \<in> set (scan ?w ?r)"
    unfolding scan_recursive_depth [OF src] by blast
  have 3: "[''docs'', ''sub'', ''deep'', ''c.pdf''] \<notin> set (scan ?w ?n)"
    unfolding scan_recursive_depth [OF src] by auto
  from 1 2 3 show ?thesis by blast
qed

section \<open>Merging\<close>

lemma process_file_writer:
  "pdf_writer (process_file w n i p st) = pdf_writer st @ pages_appended (read_pdf w p)"
  by (cases "read_pdf w p") (simp_all add: process_file_def)

lemma process_file_total:
  "running_total (process_file w n i p st) = running_total st + pages_counted (read_pdf w p)"
  by (cases "read_pdf w p") (simp_all add: process_file_def)

lemma merge_loop_writer:
  "pdf_writer (merge_loop w n i files st) =
   pdf_writer st @ concat (map (\<lambda>p. pages_appended (read_pdf w p)) files)"
  by (induction files arbitrary: i st) (simp_all add: process_file_writer)

lemma merge_loop_total:
  "running_total (merge_loop w n i files st) =
   running_total st + sum_list (map (\<lambda>p. pages_counted (read_pdf w p)) files)"
  by (induction files arbitrary: i st) (simp_all add: process_file_total)

lemma merge_written:
  assumes "pdf_lib_ok w" and "write_ok w"
  shows "written (fst (merge w files out)) =
           Some (out, concat (map (\<lambda>p. pages_appended (read_pdf w p)) files))"
    and "\<exists>oc. snd (merge w files out) = Returned oc \<and> output_path oc = out \<and>
           total_pages oc = sum_list (map (\<lambda>p. pages_counted (read_pdf w p)) files)"
  using assms by (simp_all add: merge_def Let_def merge_loop_writer merge_loop_total)

section \<open>The preview\<close>

lemma limit_preview_loop_take:
  "limit_preview_loop limit idx files preview =
   preview @ map path_name (take (nat (limit - idx)) files)"
proof (induction files arbitrary: idx preview)
  case Nil
  show ?case by simp
next
  case (Cons f files)
  show ?case
  proof (cases "idx \<ge> limit")
    case True
    then show ?thesis by simp
  next
    case False
    then have "nat (limit - idx) = Suc (nat (limit - (idx + 1)))" by simp
    with False Cons show ?thesis by simp
  qed
qed

lemma limit_preview_take: "limit_preview files limit = map path_name (take (nat limit) files)"
  by (simp add: limit_preview_def limit_preview_loop_take)

lemma ensure_unique_output_returns:
  "\<exists>out. ensure_unique_output exists now (dest @ [resolve_output_name settings folder]) =
      Returned out"
proof -
  obtain n e where r: "resolve_output_name settings folder = n @ e" and e: "lower e = ''.pdf''"
    using resolved_name_shape by blast
  from e have "e \<noteq> []" by (auto simp: lower_def)
  then show ?thesis
    by (simp add: ensure_unique_output_def with_name_def path_name_snoc r)
qed

lemma process_file_no_MoreFiles:
  "MoreFiles k \<in> set (printed (process_file w n i p st)) \<longleftrightarrow> MoreFiles k \<in> set (printed st)"
  by (cases "read_pdf w p") (simp_all add: process_file_def Let_def)

lemma merge_loop_no_MoreFiles:
  "MoreFiles k \<in> set (printed (merge_loop w n i files st)) \<longleftrightarrow> MoreFiles k \<in> set (printed st)"
  by (induction files arbitrary: i st) (simp_all add: process_file_no_MoreFiles)

lemma merge_no_MoreFiles: "MoreFiles k \<notin> set (console (fst (merge w files out)))"
  by (simp add: merge_def Let_def merge_loop_no_MoreFiles)

lemma print_files_MoreFiles:
  "MoreFiles k \<in> set (print_files items bound n) \<longleftrightarrow> n > bound \<and> k = n - bound"
  by (auto simp: print_files_def)

lemma execute_merge_MoreFiles:
  "MoreFiles k \<in> set (console (fst (execute_merge w files m2 raw out))) \<longleftrightarrow>
   MoreFiles k \<in> set m2 \<or>
   (int (length files) > MAX_PREVIEW_FILES \<and> k = int (length files) - MAX_PREVIEW_FILES)"
  by (simp add: execute_merge_def Let_def merge_no_MoreFiles print_files_MoreFiles)

lemma execute_merge_preview:
  "\<exists>pre post. console (fst (execute_merge w files m2 raw out)) =
     pre @ print_files (limit_preview files MAX_PREVIEW_FILES) MAX_PREVIEW_FILES
             (int (length files)) @ post"
proof -
  let ?m3 = "m2 @ (if out \<noteq> raw then [OutputExists (path_name out)] else [])"
  let ?post = "[UsingLibrary] @ (if \<not> has_tqdm w then [InstallTqdm] else []) @
               [ReadyToMerge (length files), OutputFile out] @ console (fst (merge w files out))"
  have "console (fst (execute_merge w files m2 raw out)) =
     ?m3 @ print_files (limit_preview files MAX_PREVIEW_FILES) MAX_PREVIEW_FILES
             (int (length files)) @ ?post"
    by (simp add: execute_merge_def Let_def)
  then show ?thesis by blast
qed

lemma execute_reaches_merge:
  assumes "source_node w = Some (Dir es)" and "scan w settings \<noteq> []"
    and "destination settings = None \<or> mkdir_ok w"
  shows "\<exists>raw out. execute w settings =
           execute_merge w (scan w settings)
             [SourceFolder (folder_path settings), RecursiveSearch (recursive settings),
              Found (length (scan w settings))] raw out"
proof -
  from assms(3)
  have "\<exists>dest. resolve_destination w (destination settings) (folder_path settings) =
          Returned dest"
    by (cases "destination settings") (auto simp: resolve_destination_def)
  then obtain dest
    where d: "resolve_destination w (destination settings) (folder_path settings) = Returned dest"
    by blast
  obtain out where o: "ensure_unique_output (path_exists w settings) (clock w)
      (dest @ [resolve_output_name settings (folder_path settings)]) = Returned out"
    using ensure_unique_output_returns by blast
  have "execute w settings =
        execute_merge w (scan w settings)
          [SourceFolder (folder_path settings), RecursiveSearch (recursive settings),
           Found (length (scan w settings))]
          (dest @ [resolve_output_name settings (folder_path settings)]) out"
    using assms(1,2) by (simp add: execute_def execute_found_def Let_def d o)
  then show ?thesis by blast
qed

text \<open>
  C8: the preview holds the names of the first ten discovered files in order, the line
  about the remaining files is printed exactly when there are more than ten, and the
  merge is given every discovered file: the written document holds what reading each
  of them appends, and the page count is the sum over all of them.
\<close>

theorem preview_does_not_limit_merge:
  assumes "source_node w = Some (Dir es)" and "scan w settings \<noteq> []"
    and "destination settings = None \<or> mkdir_ok w"
    and "pdf_lib_ok w" and "write_ok w"
  shows "limit_preview (scan w settings) MAX_PREVIEW_FILES =
           map path_name (take 10 (scan w settings)) \<and>
         (\<exists>pre post. console (fst (execute w settings)) =
            pre @ print_files (map path_name (take 10 (scan w settings))) 10
                    (int (length (scan w settings))) @ post) \<and>
         ((\<exists>k. MoreFiles k \<in> set (console (fst (execute w settings)))) \<longleftrightarrow>
            length (scan w settings) > 10) \<and>
         (\<exists>out. written (fst (execute w settings)) =
            Some (out, concat (map (\<lambda>p. pages_appended (read_pdf w p)) (scan w settings)))) \<and>
         (\<exists>oc. snd (execute w settings) = Returned (Some oc) \<and>
            total_pages oc = sum_list (map (\<lambda>p. pages_counted (read_pdf w p)) (scan w settings)))"
proof -
  let ?files = "scan w settings"
  let ?m2 = "[SourceFolder (folder_path settings), RecursiveSearch (recursive settings),
              Found (length ?files)]"
  from execute_reaches_merge [OF assms(1-3)] obtain raw out
    where x: "execute w settings = execute_merge w ?files ?m2 raw out" by blast
  have 1: "limit_preview ?files MAX_PREVIEW_FILES = map path_name (take 10 ?files)"
    by (simp add: limit_preview_take MAX_PREVIEW_FILES_def)
  have 2: "\<exists>pre post. console (fst (execute w settings)) =
            pre @ print_files (map path_name (take 10 ?files)) 10 (int (length ?files)) @ post"
    using execute_merge_preview [of w ?files ?m2 raw out]
    unfolding x 1 by (simp only: MAX_PREVIEW_FILES_def)
  have 3: "(\<exists>k. MoreFiles k \<in> set (console (fst (execute w settings)))) \<longleftrightarrow>
            length ?files > 10"
    unfolding x execute_merge_MoreFiles by (auto simp: MAX_PREVIEW_FILES_def)
  have 4: "\<exists>out. written (fst (execute w settings)) =
            Some (out, concat (map (\<lambda>p. pages_appended (read_pdf w p)) ?files))"
    unfolding x using merge_written(1) [OF assms(4,5)]
    by (simp add: execute_merge_def Let_def)
  from merge_written(2) [OF assms(4,5), of ?files out] obtain oc
    where "snd (merge w ?files out) = Returned oc"
      "total_pages oc = sum_list (map (\<lambda>p. pages_counted (read_pdf w p)) ?files)" by blast
  then have 5: "\<exists>oc. snd (execute w settings) = Returned (Some oc) \<and>
            total_pages oc = sum_list (map (\<lambda>p. pages_counted (read_pdf w p)) ?files)"
    unfolding x by (simp add: execute_merge_def Let_def)
  from 1 2 3 4 5 show ?thesis by blast
qed

theorem preview_does_not_limit_merge_witness:
  "(\<exists>k. MoreFiles k \<in> set (console (fst (execute
     \<lparr>source_node = Some (Dir [(''a.pdf'', File),
        (''b.pdf'', File),
        (''c.pdf'', File),
        (''d.pdf'', File),
        (''e.pdf'', File),
        (''f.pdf'', File),
        (''g.pdf'', File),
        (''h.pdf'', File),
        (''i.pdf'', File),
        (''j.pdf'', File),
        (''k.pdf'', File)]),
      read_pdf = (\<lambda>p. AllPages [7]), mkdir_ok = True, dest_names = [],
      clock = \<lparr>year = 2024, month = 1, day = 2, hour = 3, minute = 4, second = 5\<rparr>,
      pdf_lib_ok = True, has_tqdm = False, write_ok = True, written_size = length\<rparr>
     \<lparr>folder_path = [''docs''], recursive = False, output_name = None, destination = None\<rparr>)))) \<and>
   (\<exists>oc. snd (execute
     \<lparr>source_node = Some (Dir [(''a.pdf'', File),
        (''b.pdf'', File),
        (''c.pdf'', File),
        (''d.pdf'', File),
        (''e.pdf'', File),
        (''f.pdf'', File),
        (''g.pdf'', File),
        (''h.pdf'', File),
        (''i.pdf'', File),
        (''j.pdf'', File),
        (''k.pdf'', File)]),
      read_pdf = (\<lambda>p. AllPages [7]), mkdir_ok = True, dest_names = [],
      clock = \<lparr>year = 2024, month = 1, day = 2, hour = 3, minute = 4, second = 5\<rparr>,
      pdf_lib_ok = True, has_tqdm = False, write_ok = True, written_size = length\<rparr>
     \<lparr>folder_path = [''docs''], recursive = False, output_name = None, destination = None\<rparr>) = Returned (Some oc) \<and> total_pages oc = 11)"
proof -
  let ?w = "\<lparr>source_node = Some (Dir [(''a.pdf'', File),
        (''b.pdf'', File),
        (''c.pdf'', File),
        (''d.pdf'', File),
        (''e.pdf'', File),
        (''f.pdf'', File),
        (''g.pdf'', File),
        (''h.pdf'', File),
        (''i.pdf'', File),
        (''j.pdf'', File),
        (''k.pdf'', File)]),
      read_pdf = (\<lambda>p. AllPages [7]), mkdir_ok = True, dest_names = [],
      clock = \<lparr>year = 2024, month = 1, day = 2, hour = 3, minute = 4, second = 5\<rparr>,
      pdf_lib_ok = True, has_tqdm = False, write_ok = True, written_size = length\<rparr>"
  let ?s = "\<lparr>folder_path = [''docs''], recursive = False, output_name = None, destination = None\<rparr>"
  have sc: "scan ?w ?s = map (\<lambda>n. [''docs'', n])
      [''a.pdf'', ''b.pdf'', ''c.pdf'', ''d.pdf'', ''e.pdf'', ''f.pdf'', ''g.pdf'', ''h.pdf'',
       ''i.pdf'', ''j.pdf'', ''k.pdf'']"
    by code_simp
  have h1: "source_node ?w = Some (Dir [(''a.pdf'', File), (''b.pdf'', File), (''c.pdf'', File), (''d.pdf'', File), (''e.pdf'', File), (''f.pdf'', File), (''g.pdf'', File), (''h.pdf'', File), (''i.pdf'', File), (''j.pdf'', File), (''k.pdf'', File)])" by simp
  have h2: "scan ?w ?s \<noteq> []" unfolding sc by simp
  have h3: "destination ?s = None \<or> mkdir_ok ?w" by simp
  have h4: "pdf_lib_ok ?w" by simp
  have h5: "write_ok ?w" by simp
  note r = preview_does_not_limit_merge [OF h1 h2 h3 h4 h5]
  have l: "length (scan ?w ?s) > 10" unfolding sc by simp
  have t: "sum_list (map (\<lambda>p. pages_counted (read_pdf ?w p)) (scan ?w ?s)) = 11"
    unfolding sc by simp
  from r l have a: "\<exists>k. MoreFiles k \<in> set (console (fst (execute ?w ?s)))" by blast
  from r have "\<exists>oc. snd (execute ?w ?s) = Returned (Some oc) \<and>
     total_pages oc = sum_list (map (\<lambda>p. pages_counted (read_pdf ?w p)) (scan ?w ?s))"
    by blast
  then have b: "\<exists>oc. snd (execute ?w ?s) = Returned (Some oc) \<and> total_pages oc = 11"
    unfolding t .
  from a b show ?thesis by blast
qed

section \<open>Files that fail\<close>

lemma process_file_printed_mono:
  "set (printed st) \<subseteq> set (printed (process_file w n i p st))"
  by (cases "read_pdf w p") (auto simp: process_file_def Let_def)

lemma merge_loop_printed_mono:
  "set (printed st) \<subseteq> set (printed (merge_loop w n i files st))"
proof (induction files arbitrary: i st)
  case Nil
  show ?case by simp
next
  case (Cons p files)
  have "set (printed st) \<subseteq> set (printed (process_file w n i p st))"
    by (rule process_file_printed_mono)
  also have "\<dots> \<subseteq> set (printed (merge_loop w n (Suc i) files (process_file w n i p st)))"
    by (rule Cons.IH)
  finally show ?case by simp
qed

lemma process_file_reports:
  "read_pdf w p = RaisesAfter ps msg \<Longrightarrow>
   FailedToProcess (path_name p) msg \<in> set (printed (process_file w n i p st))"
  by (simp add: process_file_def Let_def)

lemma merge_loop_reports:
  assumes "p \<in> set files" and "read_pdf w p = RaisesAfter ps msg"
  shows "FailedToProcess (path_name p) msg \<in> set (printed (merge_loop w n i files st))"
  using assms(1)
proof (induction files arbitrary: i st)
  case Nil
  then show ?case by simp
next
  case (Cons q files)
  show ?case
  proof (cases "p = q")
    case True
    then have "FailedToProcess (path_name p) msg \<in> set (printed (process_file w n i q st))"
      using assms(2) process_file_reports by blast
    then show ?thesis
      using merge_loop_printed_mono [of "process_file w n i q st" w n "Suc i" files] by auto
  next
    case False
    with Cons.prems have "p \<in> set files" by simp
    then show ?thesis using Cons.IH by simp
  qed
qed

text \<open>
  What the partial-failure design gives when every file that fails does so before any of
  its pages reached the writer: each failure is printed, the merge goes on and returns,
  the document holds the pages of the files that were read, in order, and the count is
  their number.
\<close>

lemma merge_failures_without_pages:
  assumes "pdf_lib_ok w" and "write_ok w"
    and "\<forall>p \<in> set files. \<forall>ps msg. read_pdf w p = RaisesAfter ps msg \<longrightarrow> ps = []"
  shows "written (fst (merge w files out)) =
           Some (out, concat (map (\<lambda>p. pages_appended (read_pdf w p))
                                (filter (\<lambda>p. \<exists>ps. read_pdf w p = AllPages ps) files)))"
    and "\<exists>oc. snd (merge w files out) = Returned oc \<and>
           total_pages oc = length (concat (map (\<lambda>p. pages_appended (read_pdf w p)) files))"
    and "\<forall>p \<in> set files. \<forall>ps msg. read_pdf w p = RaisesAfter ps msg \<longrightarrow>
           FailedToProcess (path_name p) msg \<in> set (console (fst (merge w files out)))"
proof -
  from assms(3)
  have a: "concat (map (\<lambda>p. pages_appended (read_pdf w p)) files) =
           concat (map (\<lambda>p. pages_appended (read_pdf w p))
                     (filter (\<lambda>p. \<exists>ps. read_pdf w p = AllPages ps) files))"
  proof (induction files)
    case Nil
    show ?case by simp
  next
    case (Cons p files)
    then show ?case by (cases "read_pdf w p") auto
  qed
  from assms(3)
  have b: "sum_list (map (\<lambda>p. pages_counted (read_pdf w p)) files) =
           length (concat (map (\<lambda>p. pages_appended (read_pdf w p)) files))"
  proof (induction files)
    case Nil
    show ?case by simp
  next
    case (Cons p files)
    then show ?case by (cases "read_pdf w p") auto
  qed
  show "written (fst (merge w files out)) =
           Some (out, concat (map (\<lambda>p. pages_appended (read_pdf w p))
                                (filter (\<lambda>p. \<exists>ps. read_pdf w p = AllPages ps) files)))"
    using merge_written(1) [OF assms(1,2), of files out] a by simp
  show "\<exists>oc. snd (merge w files out) = Returned oc \<and>
           total_pages oc = length (concat (map (\<lambda>p. pages_appended (read_pdf w p)) files))"
    using merge_written(2) [OF assms(1,2), of files out] b by auto
  show "\<forall>p \<in> set files. \<forall>ps msg. read_pdf w p = RaisesAfter ps msg \<longrightarrow>
           FailedToProcess (path_name p) msg \<in> set (console (fst (merge w files out)))"
    using assms(1,2) merge_loop_reports by (auto simp: merge_def Let_def)
qed

text \<open>
  C1: a file whose reading raises after some of its pages were appended is reported as
  failed and left out of the count, but its pages stay in the writer.  With \<open>A\<close> of
  three pages, \<open>B\<close> of two and \<open>C\<close> raising on its third page, the count returned is 5
  and the document written has 7 pages, the last two from \<open>C\<close>; the loop of the
  standalone script does the same.
\<close>

theorem merge_failed_file_leaves_pages:
  "written (fst (merge
      \<lparr>source_node = None,
       read_pdf = (\<lambda>p. if p = [''in'', ''A.pdf''] then AllPages [1, 2, 3]
                        else if p = [''in'', ''B.pdf''] then AllPages [4, 5]
                        else RaisesAfter [6, 7] ''broken page''),
       mkdir_ok = True, dest_names = [],
       clock = \<lparr>year = 2024, month = 1, day = 2, hour = 3, minute = 4, second = 5\<rparr>,
       pdf_lib_ok = True, has_tqdm = False, write_ok = True, written_size = length\<rparr>
      [[''in'', ''A.pdf''], [''in'', ''B.pdf''], [''in'', ''C.pdf'']] [''in'', ''out.pdf''])) =
     Some ([''in'', ''out.pdf''], [1, 2, 3, 4, 5, 6, 7]) \<and>
   (\<exists>oc. snd (merge
      \<lparr>source_node = None,
       read_pdf = (\<lambda>p. if p = [''in'', ''A.pdf''] then AllPages [1, 2, 3]
                        else if p = [''in'', ''B.pdf''] then AllPages [4, 5]
                        else RaisesAfter [6, 7] ''broken page''),
       mkdir_ok = True, dest_names = [],
       clock = \<lparr>year = 2024, month = 1, day = 2, hour = 3, minute = 4, second = 5\<rparr>,
       pdf_lib_ok = True, has_tqdm = False, write_ok = True, written_size = length\<rparr>
      [[''in'', ''A.pdf''], [''in'', ''B.pdf''], [''in'', ''C.pdf'']] [''in'', ''out.pdf'']) =
        Returned oc \<and> total_pages oc = 5) \<and>
   FailedToProcess ''C.pdf'' ''broken page'' \<in> set (console (fst (merge
      \<lparr>source_node = None,
       read_pdf = (\<lambda>p. if p = [''in'', ''A.pdf''] then AllPages [1, 2, 3]
                        else if p = [''in'', ''B.pdf''] then AllPages [4, 5]
                        else RaisesAfter [6, 7] ''broken page''),
       mkdir_ok = True, dest_names = [],
       clock = \<lparr>year = 2024, month = 1, day = 2, hour = 3, minute = 4, second = 5\<rparr>,
       pdf_lib_ok = True, has_tqdm = False, write_ok = True, written_size = length\<rparr>
      [[''in'', ''A.pdf''], [''in'', ''B.pdf''], [''in'', ''C.pdf'']] [''in'', ''out.pdf'']))) \<and>
   written (fst (merge_pdfs
      \<lparr>source_node = None,
       read_pdf = (\<lambda>p. if p = [''in'', ''A.pdf''] then AllPages [1, 2, 3]
                        else if p = [''in'', ''B.pdf''] then AllPages [4, 5]
                        else RaisesAfter [6, 7] ''broken page''),
       mkdir_ok = True, dest_names = [],
       clock = \<lparr>year = 2024, month = 1, day = 2, hour = 3, minute = 4, second = 5\<rparr>,
       pdf_lib_ok = True, has_tqdm = False, write_ok = True, written_size = length\<rparr>
      [[''in'', ''A.pdf''], [''in'', ''B.pdf''], [''in'', ''C.pdf'']] [''in'', ''out.pdf''])) =
     Some ([''in'', ''out.pdf''], [1, 2, 3, 4, 5, 6, 7]) \<and>
   TotalPages 5 \<in> set (console (fst (merge_pdfs
      \<lparr>source_node = None,
       read_pdf = (\<lambda>p. if p = [''in'', ''A.pdf''] then AllPages [1, 2, 3]
                        else if p = [''in'', ''B.pdf''] then AllPages [4, 5]
                        else RaisesAfter [6, 7] ''broken page''),
       mkdir_ok = True, dest_names = [],
       clock = \<lparr>year = 2024, month = 1, day = 2, hour = 3, minute = 4, second = 5\<rparr>,
       pdf_lib_ok = True, has_tqdm = False, write_ok = True, written_size = length\<rparr>
      [[''in'', ''A.pdf''], [''in'', ''B.pdf''], [''in'', ''C.pdf'']] [''in'', ''out.pdf''])))"
  by (simp add: merge_def merge_pdfs_def process_file_def path_name_def)

section \<open>Exit codes\<close>

lemma run_handler_code:
  "snd (run_handler r) = (case r of Returned x \<Rightarrow> 0 | Raised e \<Rightarrow> 1)"
  by (cases r rule: run_handler.cases) simp_all

text \<open>
  The application returns 0 when \<open>execute\<close> returns, with an outcome or with none, and 1
  when it raises or the user interrupts it.
\<close>

lemma run_exit_code:
  "run w interrupted settings =
     (if interrupted then 1
      else case snd (execute w settings) of Returned x \<Rightarrow> 0 | Raised e \<Rightarrow> 1)"
  by (simp add: run_def run_handler_code)

lemma run_validation_failure:
  "source_node w = None \<or> source_node w = Some File \<or> source_node w = Some Special \<Longrightarrow>
   run w interrupted settings = 1"
  by (auto simp: run_exit_code execute_def)

lemma run_nothing_to_merge:
  "source_node w = Some (Dir es) \<Longrightarrow> scan w settings = [] \<Longrightarrow> run w False settings = 0"
  by (simp add: run_exit_code execute_def)

lemma run_raised: "snd (execute w settings) = Raised e \<Longrightarrow> run w interrupted settings = 1"
  by (simp add: run_exit_code)

lemma run_success:
  assumes "source_node w = Some (Dir es)" and "scan w settings \<noteq> []"
    and "destination settings = None \<or> mkdir_ok w"
    and "pdf_lib_ok w" and "write_ok w"
  shows "run w False settings = 0"
proof -
  from execute_reaches_merge [OF assms(1-3)] obtain raw out
    where x: "execute w settings =
                execute_merge w (scan w settings)
                  [SourceFolder (folder_path settings), RecursiveSearch (recursive settings),
                   Found (length (scan w settings))] raw out" by blast
  from merge_written(2) [OF assms(4,5), of "scan w settings" out] obtain oc
    where "snd (merge w (scan w settings) out) = Returned oc" by blast
  then have "snd (execute w settings) = Returned (Some oc)"
    unfolding x by (simp add: execute_merge_def Let_def)
  then show ?thesis by (simp add: run_exit_code)
qed

text \<open>
  A folder with \<open>A\<close> of three pages, \<open>B\<close> of two and \<open>C\<close> that cannot be opened: the
  failure of \<open>C\<close> is printed, the document holds the pages of \<open>A\<close> and then of \<open>B\<close>,
  and the application exits with 0.
\<close>

lemma run_three_files:
  "run
     \<lparr>source_node = Some (Dir [(''B.pdf'', File), (''C.pdf'', File), (''A.pdf'', File)]),
      read_pdf = (\<lambda>p. if p = [''in'', ''A.pdf''] then AllPages [1, 2, 3]
                       else if p = [''in'', ''B.pdf''] then AllPages [4, 5]
                       else RaisesAfter [] ''cannot open''),
      mkdir_ok = True, dest_names = [],
      clock = \<lparr>year = 2024, month = 1, day = 2, hour = 3, minute = 4, second = 5\<rparr>,
      pdf_lib_ok = True, has_tqdm = False, write_ok = True, written_size = length\<rparr>
     False
     \<lparr>folder_path = [''in''], recursive = False, output_name = None, destination = None\<rparr>
   = 0 \<and>
   written (fst (execute
     \<lparr>source_node = Some (Dir [(''B.pdf'', File), (''C.pdf'', File), (''A.pdf'', File)]),
      read_pdf = (\<lambda>p. if p = [''in'', ''A.pdf''] then AllPages [1, 2, 3]
                       else if p = [''in'', ''B.pdf''] then AllPages [4, 5]
                       else RaisesAfter [] ''cannot open''),
      mkdir_ok = True, dest_names = [],
      clock = \<lparr>year = 2024, month = 1, day = 2, hour = 3, minute = 4, second = 5\<rparr>,
      pdf_lib_ok = True, has_tqdm = False, write_ok = True, written_size = length\<rparr>
     \<lparr>folder_path = [''in''], recursive = False, output_name = None, destination = None\<rparr>))
   = Some ([''in'', ''in.pdf''], [1, 2, 3, 4, 5])"
  unfolding run_def by code_simp

lemma run_interrupt: "run w True settings = 1"
  by (simp add: run_exit_code)

lemma script_handler_interrupt: "script_handler (Uncaught KeyboardInterrupt) = 0"
  by simp

lemma script_interrupt: "pdf_lib_ok w \<Longrightarrow> script w True settings = 0"
  by (simp add: script_def)

text \<open>
  C3: the exit code is 0 after a merge and when there is nothing to merge, and 1 after a
  validation failure, a runtime failure or a user interrupt.  The application does so,
  as shown above; the standalone script exits with 0 when the user interrupts it.
\<close>

theorem script_interrupt_exit_code:
  "script
     \<lparr>source_node = Some (Dir [(''a.pdf'', File)]),
      read_pdf = (\<lambda>p. AllPages [1]), mkdir_ok = True, dest_names = [],
      clock = \<lparr>year = 2024, month = 1, day = 2, hour = 3, minute = 4, second = 5\<rparr>,
      pdf_lib_ok = True, has_tqdm = False, write_ok = True, written_size = length\<rparr>
     True
     \<lparr>folder_path = [''docs''], recursive = False, output_name = None, destination = None\<rparr>
   = 0 \<and>
   run
     \<lparr>source_node = Some (Dir [(''a.pdf'', File)]),
      read_pdf = (\<lambda>p. AllPages [1]), mkdir_ok = True, dest_names = [],
      clock = \<lparr>year = 2024, month = 1, day = 2, hour = 3, minute = 4, second = 5\<rparr>,
      pdf_lib_ok = True, has_tqdm = False, write_ok = True, written_size = length\<rparr>
     True
     \<lparr>folder_path = [''docs''], recursive = False, output_name = None, destination = None\<rparr>
   = 1"
  by (simp add: script_def run_def)

section \<open>The standalone script and the application\<close>

lemma script_output_path_execute:
  "script_output_path w settings =
     (case resolve_destination w (destination settings) (folder_path settings) of
        Raised e \<Rightarrow> Raised e
      | Returned dest \<Rightarrow>
          ensure_unique_output (path_exists w settings) (clock w)
            (dest @ [resolve_output_name settings (folder_path settings)]))"
proof -
  let ?name = "resolve_output_name settings (folder_path settings)"
  obtain n e where r: "?name = n @ e" and e: "lower e = ''.pdf''"
    using resolved_name_shape by blast
  from e have ne: "?name \<noteq> []" unfolding r by (auto simp: lower_def)
  have n1: "(let name0 = (case output_name settings of
                     Some n \<Rightarrow>
                       if n \<noteq> [] then sanitize_filename n
                       else sanitize_filename (path_name (folder_path settings))
                   | None \<Rightarrow> sanitize_filename (path_name (folder_path settings)))
            in if \<not> endswith (lower name0) ''.pdf'' then name0 @ ''.pdf'' else name0) = ?name"
    by (simp add: resolve_output_name_def ensure_pdf_extension_def PDF_EXTENSION_def Let_def)
  show ?thesis
  proof (cases "resolve_destination w (destination settings) (folder_path settings)")
    case (Raised x)
    then show ?thesis by (simp add: script_output_path_def Let_def)
  next
    case (Returned dest)
    then show ?thesis
      using ne n1
      by (simp add: script_output_path_def Let_def ensure_unique_output_def with_name_def
          path_name_snoc PDF_EXTENSION_def)
  qed
qed

end
